theory Spec2Isabelle
  imports Complex_Main
begin

text \<open>
  The record store, the pattern catalogue with the form validator, and the search of the
  Student Finance Tracker, embedded as functions of HOL: \<open>scripts/state.js\<close>,
  \<open>scripts/validators.js\<close> and \<open>scripts/search.js\<close>. The module state is passed
  explicitly, a throw is a value, and what the browser supplies (the clock, the RegExp
  constructor, the conversions between numbers and text) is a parameter.
\<close>

section \<open>JavaScript strings and values\<close>

text \<open>
  A JavaScript string is a sequence of UTF-16 code units; a code unit is modelled as a
  natural number and a string as a list of them. \<open>js\<close> turns a literal of the theory
  into such a string.
\<close>

type_synonym jsstring = "nat list"

definition js :: "string \<Rightarrow> jsstring" where
  "js s = map of_char s"

text \<open>
  WhiteSpace and LineTerminator code units of ECMAScript: what \<open>String.prototype.trim\<close>
  strips and what \<open>\s\<close> matches.
\<close>

definition is_line_term :: "nat \<Rightarrow> bool" where
  "is_line_term c = (c = 10 \<or> c = 13 \<or> c = 8232 \<or> c = 8233)"

definition is_ws :: "nat \<Rightarrow> bool" where
  "is_ws c = (c = 9 \<or> c = 11 \<or> c = 12 \<or> c = 32 \<or> c = 160 \<or> c = 5760
      \<or> (8192 \<le> c \<and> c \<le> 8202) \<or> c = 8239 \<or> c = 8287 \<or> c = 12288 \<or> c = 65279
      \<or> is_line_term c)"

definition trimStart :: "jsstring \<Rightarrow> jsstring" where
  "trimStart s = dropWhile is_ws s"

definition trim :: "jsstring \<Rightarrow> jsstring" where
  "trim s = rev (dropWhile is_ws (rev (dropWhile is_ws s)))"

text \<open>
  Numbers. \<open>Fin q\<close> is the double whose exact value is \<open>q\<close>; negative zero is identified
  with zero, which none of the modelled operations tells apart (\<open>||\<close>, \<open>===\<close>, \<open>>\<close>).
\<close>

datatype jsnum = NaN | PosInf | NegInf | Fin rat

text \<open>
  The values a record field or an imported element can hold: what \<open>JSON.parse\<close> produces,
  and \<open>undefined\<close>. An object is the list of its own properties; a key that occurs twice
  is read at its first occurrence.
\<close>

datatype jsval =
    JUndefined
  | JNull
  | JBool bool
  | JNum jsnum
  | JStr jsstring
  | JArr "jsval list"
  | JObj "(jsstring \<times> jsval) list"

fun truthy :: "jsval \<Rightarrow> bool" where
  "truthy JUndefined = False"
| "truthy JNull = False"
| "truthy (JBool b) = b"
| "truthy (JNum n) = (n \<noteq> NaN \<and> n \<noteq> Fin 0)"
| "truthy (JStr s) = (s \<noteq> [])"
| "truthy (JArr xs) = True"
| "truthy (JObj ps) = True"

text \<open>\<open>a || b\<close> on values.\<close>

definition or_else :: "jsval \<Rightarrow> jsval \<Rightarrow> jsval" where
  "or_else a b = (if truthy a then a else b)"

text \<open>
  Strict equality \<open>===\<close>. Two objects are equal only when they are the same reference;
  references are not modelled, and two object values are taken to be distinct.
\<close>

fun strict_eq :: "jsval \<Rightarrow> jsval \<Rightarrow> bool" where
  "strict_eq JUndefined JUndefined = True"
| "strict_eq JNull JNull = True"
| "strict_eq (JBool a) (JBool b) = (a = b)"
| "strict_eq (JNum a) (JNum b) = (a \<noteq> NaN \<and> a = b)"
| "strict_eq (JStr a) (JStr b) = (a = b)"
| "strict_eq _ _ = False"

text \<open>\<open>typeof v === 'object'\<close> (true of \<open>null\<close>) and \<open>Array.isArray\<close>.\<close>

fun typeof_object :: "jsval \<Rightarrow> bool" where
  "typeof_object JNull = True"
| "typeof_object (JArr xs) = True"
| "typeof_object (JObj ps) = True"
| "typeof_object _ = False"

fun isArray :: "jsval \<Rightarrow> bool" where
  "isArray (JArr xs) = True"
| "isArray _ = False"

subsection \<open>Integers as text\<close>

definition digit_char :: "nat \<Rightarrow> nat" where
  "digit_char d = (if d < 10 then 48 + d else 87 + d)"

text \<open>\<open>n.toString(b)\<close> for a non-negative integer.\<close>

function to_radix :: "nat \<Rightarrow> nat \<Rightarrow> jsstring" where
  "to_radix b n = (if b < 2 \<or> n < b then [digit_char n]
                   else to_radix b (n div b) @ [digit_char (n mod b)])"
  by pat_completeness auto
termination
  by (relation "measure (\<lambda>(b, n). n)") auto

declare to_radix.simps [simp del]

definition int_to_str :: "int \<Rightarrow> jsstring" where
  "int_to_str t = (if t < 0 then 45 # to_radix 10 (nat (- t)) else to_radix 10 (nat t))"

definition pad :: "nat \<Rightarrow> nat \<Rightarrow> jsstring" where
  "pad w n = replicate (w - length (to_radix 10 n)) 48 @ to_radix 10 n"

subsection \<open>The host: clock and number conversions\<close>

text \<open>
  What the browser supplies and the repository does not define is a parameter of the
  model: the successive readings of the system clock (milliseconds since the epoch, one
  per \<open>Date.now()\<close> or \<open>new Date()\<close>), the text of a finite number, the number read from
  a text, local-calendar day arithmetic and the rounding of an exact sum to a double.
\<close>

record host =
  clock :: "nat \<Rightarrow> int"
  numToString :: "rat \<Rightarrow> jsstring"
  stringToNumber :: "jsstring \<Rightarrow> jsnum"
  daysBefore :: "int \<Rightarrow> nat \<Rightarrow> int"
  roundDouble :: "rat \<Rightarrow> jsnum"

text \<open>\<open>Date.prototype.toISOString\<close> of a time value: the UTC calendar date and time.\<close>

definition civil_from_days :: "int \<Rightarrow> int \<times> nat \<times> nat" where
  "civil_from_days z0 =
     (let z = z0 + 719468;
          era = z div 146097;
          doe = z mod 146097;
          yoe = (doe - doe div 1460 + doe div 36524 - doe div 146096) div 365;
          doy = doe - (365 * yoe + yoe div 4 - yoe div 100);
          mp = (5 * doy + 2) div 153;
          d = doy - (153 * mp + 2) div 5 + 1;
          m = (if mp < 10 then mp + 3 else mp - 9);
          y = yoe + era * 400 + (if m \<le> 2 then 1 else 0)
      in (y, nat m, nat d))"

definition toISOString :: "int \<Rightarrow> jsstring" where
  "toISOString t =
     (let ms = nat (t mod 86400000);
          (y, m, d) = civil_from_days (t div 86400000);
          year = (if 0 \<le> y \<and> y \<le> 9999 then pad 4 (nat y)
                  else (if y < 0 then 45 else 43) # pad 6 (nat \<bar>y\<bar>))
      in year @ js ''-'' @ pad 2 m @ js ''-'' @ pad 2 d @ js ''T''
         @ pad 2 (ms div 3600000) @ js '':'' @ pad 2 (ms div 60000 mod 60) @ js '':''
         @ pad 2 (ms div 1000 mod 60) @ js ''.'' @ pad 3 (ms mod 1000) @ js ''Z'')"

text \<open>A call returns a value or throws.\<close>

datatype error = TypeError | SyntaxError

datatype 'a outcome = Throw error | Return 'a

text \<open>
  \<open>String(v)\<close> and \<open>Number(v)\<close>. No property of a value that \<open>JSON.parse\<close> produced is
  callable. On an object both conversions look for a method \<open>toString\<close> (and \<open>valueOf\<close>,
  which on \<open>Object.prototype\<close> returns the object itself and so never yields a primitive):
  where the object has a property \<open>toString\<close> of its own, that property hides the inherited
  method, no method is left to call and a TypeError is thrown; otherwise
  \<open>Object.prototype.toString\<close> answers \<open>[object Object]\<close>. An array is joined with commas
  from the texts of its elements, \<open>null\<close> and \<open>undefined\<close> giving the empty text, and throws
  where an element does. The stack limit of an engine, which an array nested deeply enough
  exceeds, is not modelled.
\<close>

fun join_comma :: "jsstring list \<Rightarrow> jsstring" where
  "join_comma [] = []"
| "join_comma [s] = s"
| "join_comma (s # t # ss) = s @ 44 # join_comma (t # ss)"

fun ToString :: "host \<Rightarrow> jsval \<Rightarrow> jsstring outcome"
and element_texts :: "host \<Rightarrow> jsval list \<Rightarrow> jsstring list outcome" where
  "ToString h JUndefined = Return (js ''undefined'')"
| "ToString h JNull = Return (js ''null'')"
| "ToString h (JBool b) = Return (if b then js ''true'' else js ''false'')"
| "ToString h (JNum NaN) = Return (js ''NaN'')"
| "ToString h (JNum PosInf) = Return (js ''Infinity'')"
| "ToString h (JNum NegInf) = Return (js ''-Infinity'')"
| "ToString h (JNum (Fin q)) = Return (numToString h q)"
| "ToString h (JStr s) = Return s"
| "ToString h (JArr xs) =
     (case element_texts h xs of Throw e \<Rightarrow> Throw e | Return ss \<Rightarrow> Return (join_comma ss))"
| "ToString h (JObj ps) =
     (if map_of ps (js ''toString'') = None then Return (js ''[object Object]'')
      else Throw TypeError)"
| "element_texts h [] = Return []"
| "element_texts h (v # vs) =
     (case (if v = JUndefined \<or> v = JNull then Return [] else ToString h v) of
        Throw e \<Rightarrow> Throw e
      | Return s \<Rightarrow>
          (case element_texts h vs of Throw e \<Rightarrow> Throw e | Return ss \<Rightarrow> Return (s # ss)))"

fun ToNumber :: "host \<Rightarrow> jsval \<Rightarrow> jsnum outcome" where
  "ToNumber h JUndefined = Return NaN"
| "ToNumber h JNull = Return (Fin 0)"
| "ToNumber h (JBool b) = Return (if b then Fin 1 else Fin 0)"
| "ToNumber h (JNum n) = Return n"
| "ToNumber h (JStr s) = Return (stringToNumber h s)"
| "ToNumber h v =
     (case ToString h v of Throw e \<Rightarrow> Throw e | Return s \<Rightarrow> Return (stringToNumber h s))"

text \<open>
  The values on which the two conversions throw: an object with a property \<open>toString\<close> of
  its own, and an array that holds such a value, at any depth.
\<close>

fun unconvertible :: "jsval \<Rightarrow> bool" where
  "unconvertible (JObj ps) = (map_of ps (js ''toString'') \<noteq> None)"
| "unconvertible (JArr xs) = list_ex unconvertible xs"
| "unconvertible v = False"

section \<open>The record store (scripts/state.js)\<close>

text \<open>
  A stored record has the seven fields \<open>normalise\<close> builds. \<open>description\<close> and
  \<open>category\<close> are strings and \<open>amount\<close> is a number; the other four hold whatever truthy
  value came in, or the generated default. The collection read from storage when the
  module is loaded is taken to consist of records with these fields, as \<open>saveRecords\<close>
  wrote them; one of the latter four that is missing there is \<open>undefined\<close> or \<open>null\<close>.
\<close>

record entry =
  rid :: jsval
  description :: jsstring
  amount :: jsnum
  category :: jsstring
  date :: jsval
  createdAt :: jsval
  updatedAt :: jsval

text \<open>
  The module state: \<open>_records\<close>, \<open>_counter\<close>, and the number of clock readings taken so
  far. \<open>saveRecords\<close> catches its own failures, returns nothing and does not touch the
  module state; it is left out.
\<close>

record store =
  recs :: "entry list"
  counter :: nat
  ticks :: nat

text \<open>A call of the store returns or throws, and either way leaves a state behind.\<close>

text \<open>
  The enumerable own properties of a value, as the spread \<open>{...v}\<close> copies them, and the
  read \<open>v.k\<close> of a data property of a value that is neither \<open>null\<close> nor \<open>undefined\<close>.
  Properties inherited from a prototype and \<open>length\<close> are read by none of the functions
  below.
\<close>

fun own_props :: "jsval \<Rightarrow> (jsstring \<times> jsval) list" where
  "own_props (JObj ps) = ps"
| "own_props (JArr xs) = zip (map (to_radix 10) [0..<length xs]) xs"
| "own_props (JStr s) = zip (map (to_radix 10) [0..<length s]) (map (\<lambda>c. JStr [c]) s)"
| "own_props _ = []"

definition get_prop :: "jsval \<Rightarrow> jsstring \<Rightarrow> jsval" where
  "get_prop v k = (case map_of (own_props v) k of None \<Rightarrow> JUndefined | Some x \<Rightarrow> x)"

definition entry_props :: "entry \<Rightarrow> (jsstring \<times> jsval) list" where
  "entry_props r =
     [(js ''id'', rid r), (js ''description'', JStr (description r)),
      (js ''amount'', JNum (amount r)), (js ''category'', JStr (category r)),
      (js ''date'', date r), (js ''createdAt'', createdAt r),
      (js ''updatedAt'', updatedAt r)]"

text \<open>
  \<open>++_counter\<close> on a double: exact below \<open>2^53\<close>, and without effect at \<open>2^53\<close>, which is
  as far as a counter that starts from a length and grows by one can get.
\<close>

definition incr :: "nat \<Rightarrow> nat" where
  "incr c = (if c < 2 ^ 53 then Suc c else c)"

text \<open>The template literal of \<open>genId\<close>, from the clock reading and the new counter.\<close>

definition id_text :: "int \<Rightarrow> nat \<Rightarrow> jsstring" where
  "id_text t c = js ''rec_'' @ int_to_str t @ js ''_'' @ to_radix 36 c"

definition genId :: "host \<Rightarrow> store \<Rightarrow> jsstring \<times> store" where
  "genId h st =
     (let t = clock h (ticks st);
          c = incr (counter st)
      in (id_text t c, st\<lparr>counter := c, ticks := Suc (ticks st)\<rparr>))"

text \<open>\<open>new Date().toISOString()\<close>.\<close>

definition nowISO :: "host \<Rightarrow> store \<Rightarrow> jsstring \<times> store" where
  "nowISO h st = (toISOString (clock h (ticks st)), st\<lparr>ticks := Suc (ticks st)\<rparr>)"

text \<open>
  \<open>normalise(r)\<close>. Reading \<open>r.id\<close> of \<open>null\<close> or \<open>undefined\<close> throws a TypeError before
  anything else happens. The fields are computed in the order of the object literal: the
  right operand of each \<open>||\<close> is evaluated only when the left one is falsy, and a throw of
  \<open>String\<close> or \<open>Number\<close> ends the call after an identifier may have been generated.
\<close>

definition normalise :: "host \<Rightarrow> jsval \<Rightarrow> store \<Rightarrow> entry outcome \<times> store" where
  "normalise h r st =
     (if r = JUndefined \<or> r = JNull then (Throw TypeError, st)
      else
        let (i, st1) = (if truthy (get_prop r (js ''id'')) then (get_prop r (js ''id''), st)
                        else (let (s, st') = genId h st in (JStr s, st')))
        in case ToString h (or_else (get_prop r (js ''description'')) (JStr [])) of
             Throw e \<Rightarrow> (Throw e, st1)
           | Return ds \<Rightarrow>
        (case ToNumber h (get_prop r (js ''amount'')) of
             Throw e \<Rightarrow> (Throw e, st1)
           | Return n \<Rightarrow>
        (case ToString h (or_else (get_prop r (js ''category'')) (JStr (js ''Other''))) of
             Throw e \<Rightarrow> (Throw e, st1)
           | Return cs \<Rightarrow>
               let a = (if truthy (JNum n) then n else Fin 0);
                   (dt, st2) = (if truthy (get_prop r (js ''date''))
                                then (get_prop r (js ''date''), st1)
                                else (let (s, st') = nowISO h st1 in (JStr (take 10 s), st')));
                   (ca, st3) = (if truthy (get_prop r (js ''createdAt''))
                                then (get_prop r (js ''createdAt''), st2)
                                else (let (s, st') = nowISO h st2 in (JStr s, st')));
                   (ua, st4) = (if truthy (get_prop r (js ''updatedAt''))
                                then (get_prop r (js ''updatedAt''), st3)
                                else (let (s, st') = nowISO h st3 in (JStr s, st')))
               in (Return \<lparr>rid = i, description = trim ds, amount = a, category = trim cs,
                            date = dt, createdAt = ca, updatedAt = ua\<rparr>, st4))))"

text \<open>
  The values \<open>normalise\<close> can convert: those whose \<open>description\<close>, \<open>amount\<close> and \<open>category\<close>
  are not among the values \<open>String\<close> and \<open>Number\<close> throw on.
\<close>

definition coercible :: "jsval \<Rightarrow> bool" where
  "coercible r = (\<not> unconvertible (get_prop r (js ''description''))
                  \<and> \<not> unconvertible (get_prop r (js ''amount''))
                  \<and> \<not> unconvertible (get_prop r (js ''category'')))"

text \<open>\<open>getRecord(id)\<close>: \<open>None\<close> is \<open>null\<close>.\<close>

definition getRecord :: "jsval \<Rightarrow> store \<Rightarrow> entry option" where
  "getRecord i st = find (\<lambda>r. strict_eq (rid r) i) (recs st)"

text \<open>\<open>addRecord(data)\<close>: \<open>Return None\<close> is the \<open>null\<close> of the guard.\<close>

definition addRecord :: "host \<Rightarrow> jsval \<Rightarrow> store \<Rightarrow> entry option outcome \<times> store" where
  "addRecord h data st =
     (if \<not> truthy data \<or> \<not> typeof_object data then (Return None, st)
      else
        let (i, st1) = genId h st;
            (c, st2) = nowISO h st1;
            (u, st3) = nowISO h st2;
            obj = JObj ([(js ''id'', JStr i), (js ''createdAt'', JStr c),
                         (js ''updatedAt'', JStr u)] @ own_props data)
        in case normalise h obj st3 of
             (Throw e, st4) \<Rightarrow> (Throw e, st4)
           | (Return r, st4) \<Rightarrow> (Return (Some r), st4\<lparr>recs := recs st4 @ [r]\<rparr>))"

text \<open>\<open>Array.prototype.findIndex\<close>: \<open>None\<close> is \<open>-1\<close>.\<close>

fun findIndex :: "('a \<Rightarrow> bool) \<Rightarrow> 'a list \<Rightarrow> nat option" where
  "findIndex p [] = None"
| "findIndex p (x # xs) =
     (if p x then Some 0 else map_option Suc (findIndex p xs))"

text \<open>
  \<open>updateRecord(id, updates)\<close>; an omitted \<open>updates\<close> is \<open>undefined\<close>, which spreads to
  nothing, as the default \<open>{}\<close> does.
\<close>

definition updateRecord ::
  "host \<Rightarrow> jsval \<Rightarrow> jsval \<Rightarrow> store \<Rightarrow> entry option outcome \<times> store" where
  "updateRecord h i updates st =
     (case findIndex (\<lambda>r. strict_eq (rid r) i) (recs st) of
        None \<Rightarrow> (Return None, st)
      | Some idx \<Rightarrow>
          let old = recs st ! idx;
              (u, st1) = nowISO h st;
              obj = JObj ([(js ''id'', i), (js ''createdAt'', createdAt old),
                           (js ''updatedAt'', JStr u)]
                          @ own_props updates @ entry_props old)
          in case normalise h obj st1 of
               (Throw e, st2) \<Rightarrow> (Throw e, st2)
             | (Return r, st2) \<Rightarrow> (Return (Some r), st2\<lparr>recs := (recs st2)[idx := r]\<rparr>))"

text \<open>\<open>deleteRecord(id)\<close>: the records whose \<open>id\<close> is not the given one are kept.\<close>

definition deleteRecord :: "jsval \<Rightarrow> store \<Rightarrow> bool \<times> store" where
  "deleteRecord i st =
     (let kept = filter (\<lambda>r. \<not> strict_eq (rid r) i) (recs st)
      in (length kept \<noteq> length (recs st), st\<lparr>recs := kept\<rparr>))"

text \<open>\<open>recordsArray.map(r => normalise(r))\<close>: left to right, stopping at the first throw.\<close>

fun map_normalise :: "host \<Rightarrow> jsval list \<Rightarrow> store \<Rightarrow> entry list outcome \<times> store" where
  "map_normalise h [] st = (Return [], st)"
| "map_normalise h (x # xs) st =
     (case normalise h x st of
        (Throw e, st1) \<Rightarrow> (Throw e, st1)
      | (Return r, st1) \<Rightarrow>
          (case map_normalise h xs st1 of
             (Throw e, st2) \<Rightarrow> (Throw e, st2)
           | (Return rs, st2) \<Rightarrow> (Return (r # rs), st2)))"

definition replaceAll :: "host \<Rightarrow> jsval \<Rightarrow> store \<Rightarrow> bool outcome \<times> store" where
  "replaceAll h recordsArray st =
     (case recordsArray of
        JArr xs \<Rightarrow>
          (case map_normalise h xs st of
             (Throw e, st1) \<Rightarrow> (Throw e, st1)
           | (Return rs, st1) \<Rightarrow> (Return True, st1\<lparr>recs := rs\<rparr>))
      | _ \<Rightarrow> (Return False, st))"

section \<open>Regular expressions\<close>

text \<open>
  The regular expressions of the pattern catalogue, as syntax trees, and the backtracking
  matcher of ECMAScript on them. A quantifier \<open>{min,max}\<close> is \<open>Rep min max\<close> (greedy; \<open>None\<close>
  is no upper bound), \<open>Cls neg rs\<close> is a character class given by its ranges, negated when
  \<open>neg\<close>, \<open>Grp n\<close> is the \<open>n\<close>-th capturing group, \<open>Bref n\<close> the back-reference \<open>\n\<close>,
  \<open>Look\<close> a positive lookahead, \<open>Bol\<close>, \<open>Eol\<close> and \<open>WordB\<close> are \<open>^\<close>, \<open>$\<close> and \<open>\b\<close>.
\<close>

datatype regex =
    Eps
  | Chr nat
  | Dot
  | Cls bool "(nat \<times> nat) list"
  | Bol
  | Eol
  | WordB
  | Seq regex regex
  | Alt regex regex
  | Rep nat "nat option" regex
  | Grp nat regex
  | Bref nat
  | Look regex

text \<open>
  A state of the matcher: the index reached and the captures so far (start and end index
  of each group that has matched).
\<close>

type_synonym captures = "nat \<Rightarrow> (nat \<times> nat) option"
type_synonym mstate = "nat \<times> captures"

text \<open>
  Canonicalize under the \<open>i\<close> flag (without \<open>u\<close>): a character is compared by its upper
  case. Only the letters of ASCII are folded here; ECMAScript never folds a character
  outside ASCII onto one inside, so for the classes and literals of the catalogue, which
  are ASCII or have no case, this is the comparison the engine makes.
\<close>

definition canon :: "bool \<Rightarrow> nat \<Rightarrow> nat" where
  "canon ic c = (if ic \<and> 97 \<le> c \<and> c \<le> 122 then c - 32 else c)"

definition in_ranges :: "(nat \<times> nat) list \<Rightarrow> nat \<Rightarrow> bool" where
  "in_ranges rs c = list_ex (\<lambda>(lo, hi). lo \<le> c \<and> c \<le> hi) rs"

definition cls_found :: "bool \<Rightarrow> (nat \<times> nat) list \<Rightarrow> nat \<Rightarrow> bool" where
  "cls_found ic rs c =
     (in_ranges rs c
      \<or> (ic \<and> 97 \<le> c \<and> c \<le> 122 \<and> in_ranges rs (c - 32))
      \<or> (ic \<and> 65 \<le> c \<and> c \<le> 90 \<and> in_ranges rs (c + 32)))"

definition word_ranges :: "(nat \<times> nat) list" where
  "word_ranges = [(48, 57), (65, 90), (95, 95), (97, 122)]"

definition is_word_at :: "jsstring \<Rightarrow> nat \<Rightarrow> bool" where
  "is_word_at s i = (i < length s \<and> in_ranges word_ranges (s ! i))"

fun groups_of :: "regex \<Rightarrow> nat list" where
  "groups_of (Seq a b) = groups_of a @ groups_of b"
| "groups_of (Alt a b) = groups_of a @ groups_of b"
| "groups_of (Rep mn mx r) = groups_of r"
| "groups_of (Grp n r) = n # groups_of r"
| "groups_of (Look r) = groups_of r"
| "groups_of _ = []"

definition clear_groups :: "nat list \<Rightarrow> captures \<Rightarrow> captures" where
  "clear_groups ns cs = (\<lambda>n. if n \<in> set ns then None else cs n)"

text \<open>
  \<open>rx_run ic s r st\<close> lists the states in which \<open>r\<close> can end when started in \<open>st\<close> on the
  input \<open>s\<close>, in the order in which the backtracking engine tries them. A quantifier
  clears the captures of its body before each iteration and, once its minimum is reached,
  refuses an iteration that consumes nothing.
\<close>

function rx_run :: "bool \<Rightarrow> jsstring \<Rightarrow> regex \<Rightarrow> mstate \<Rightarrow> mstate list" where
  "rx_run ic s Eps st = [st]"
| "rx_run ic s (Chr c) (i, cs) =
     (if i < length s \<and> canon ic (s ! i) = canon ic c then [(Suc i, cs)] else [])"
| "rx_run ic s Dot (i, cs) =
     (if i < length s \<and> \<not> is_line_term (s ! i) then [(Suc i, cs)] else [])"
| "rx_run ic s (Cls neg rs) (i, cs) =
     (if i < length s \<and> cls_found ic rs (s ! i) \<noteq> neg then [(Suc i, cs)] else [])"
| "rx_run ic s Bol (i, cs) = (if i = 0 then [(i, cs)] else [])"
| "rx_run ic s Eol (i, cs) = (if i = length s then [(i, cs)] else [])"
| "rx_run ic s WordB (i, cs) =
     (if (0 < i \<and> is_word_at s (i - 1)) \<noteq> is_word_at s i then [(i, cs)] else [])"
| "rx_run ic s (Seq a b) st = concat (map (rx_run ic s b) (rx_run ic s a st))"
| "rx_run ic s (Alt a b) st = rx_run ic s a st @ rx_run ic s b st"
| "rx_run ic s (Rep mn mx r) (i, cs) =
     (if mx = Some 0 then [(i, cs)]
      else
        let again = concat (map (\<lambda>(j, cs').
                      if (mn = 0 \<and> j \<le> i) \<or> length s < j then []
                      else rx_run ic s (Rep (mn - 1) (map_option (\<lambda>m. m - 1) mx) r) (j, cs'))
                    (rx_run ic s r (i, clear_groups (groups_of r) cs)))
        in if mn = 0 then again @ [(i, cs)] else again)"
| "rx_run ic s (Grp n r) (i, cs) =
     map (\<lambda>(j, cs'). (j, cs'(n \<mapsto> (i, j)))) (rx_run ic s r (i, cs))"
| "rx_run ic s (Bref n) (i, cs) =
     (case cs n of
        None \<Rightarrow> [(i, cs)]
      | Some (a, b) \<Rightarrow>
          if i + (b - a) \<le> length s
             \<and> map (canon ic) (take (b - a) (drop a s)) = map (canon ic) (take (b - a) (drop i s))
          then [(i + (b - a), cs)] else [])"
| "rx_run ic s (Look r) (i, cs) =
     (case rx_run ic s r (i, cs) of [] \<Rightarrow> [] | (j, cs') # rest \<Rightarrow> [(i, cs')])"
  by pat_completeness auto
termination
  apply (relation "measures [\<lambda>(ic, s, r, st). size r,
                             \<lambda>(ic, s, r, st). (case r of Rep mn mx r' \<Rightarrow> mn | _ \<Rightarrow> 0),
                             \<lambda>(ic, s, r, (i, cs)). Suc (length s) - i]")
  apply auto
  done

text \<open>
  The equation of the quantifier calls the matcher on the same quantifier again; it is
  unfolded on demand only.
\<close>

declare rx_run.simps(10) [simp del]

text \<open>The length of the first match that starts at a given index, in backtracking order.\<close>

definition rx_match_len :: "bool \<Rightarrow> regex \<Rightarrow> jsstring \<Rightarrow> nat \<Rightarrow> nat option" where
  "rx_match_len ic r s i =
     (case rx_run ic s r (i, Map.empty) of [] \<Rightarrow> None | (j, cs) # rest \<Rightarrow> Some (j - i))"

text \<open>
  A RegExp object: its matcher (the length of the first match that starts at a given index
  of a given input), the flags that change how \<open>exec\<close> and \<open>replace\<close> proceed, and
  \<open>lastIndex\<close>.
\<close>

record regexp =
  match_len :: "jsstring \<Rightarrow> nat \<Rightarrow> nat option"
  global :: bool
  sticky :: bool
  unicode :: bool
  lastIndex :: nat

text \<open>AdvanceStringIndex: one code unit, or a whole surrogate pair under the \<open>u\<close> flag.\<close>

definition advance :: "bool \<Rightarrow> jsstring \<Rightarrow> nat \<Rightarrow> nat" where
  "advance u s i =
     (if u \<and> Suc i < length s \<and> 55296 \<le> s ! i \<and> s ! i \<le> 56319
         \<and> 56320 \<le> s ! Suc i \<and> s ! Suc i \<le> 57343
      then i + 2 else Suc i)"

text \<open>
  RegExpBuiltinExec: the search for the first match at or after an index (at the index
  only, when sticky), and the update of \<open>lastIndex\<close> for a global or sticky object.
\<close>

function exec_from :: "regexp \<Rightarrow> jsstring \<Rightarrow> nat \<Rightarrow> (nat \<times> nat) option" where
  "exec_from re s i =
     (if length s < i then None
      else case match_len re s i of
             Some n \<Rightarrow> Some (i, i + n)
           | None \<Rightarrow> if sticky re then None else exec_from re s (advance (unicode re) s i))"
  by pat_completeness auto
termination
  by (relation "measure (\<lambda>(re, s, i). Suc (length s) - i)") (auto simp: advance_def)

declare exec_from.simps [simp del]

definition regexp_exec :: "regexp \<Rightarrow> jsstring \<Rightarrow> (nat \<times> nat) option \<times> regexp" where
  "regexp_exec re s =
     (let stateful = (global re \<or> sticky re);
          start = (if stateful then lastIndex re else 0)
      in case exec_from re s start of
           None \<Rightarrow> (None, if stateful then re\<lparr>lastIndex := 0\<rparr> else re)
         | Some (i, e) \<Rightarrow> (Some (i, e), if stateful then re\<lparr>lastIndex := e\<rparr> else re))"

definition regexp_test :: "regexp \<Rightarrow> jsstring \<Rightarrow> bool \<times> regexp" where
  "regexp_test re s = (case regexp_exec re s of (m, re') \<Rightarrow> (m \<noteq> None, re'))"

lemma exec_from_bounds:
  "exec_from re s k = Some (i, e) \<Longrightarrow> k \<le> i \<and> i \<le> length s \<and> i \<le> e"
proof (induction re s k rule: exec_from.induct)
  case (1 re s k)
  show ?case
  proof (cases "length s < k")
    case True
    with "1.prems" show ?thesis by (simp add: exec_from.simps)
  next
    case False
    show ?thesis
    proof (cases "match_len re s k")
      case (Some n)
      with False "1.prems" show ?thesis by (simp add: exec_from.simps)
    next
      case None
      with False "1.prems" have ns: "\<not> sticky re"
        and r: "exec_from re s (advance (unicode re) s k) = Some (i, e)"
        by (simp_all add: exec_from.simps split: if_splits)
      from "1.IH"[OF False None ns r] show ?thesis by (auto simp: advance_def split: if_splits)
    qed
  qed
qed

text \<open>
  \<open>String.prototype.replace\<close> with a RegExp and a replacer function: every match from index
  0 on when the object is global, the first match only when it is not.
\<close>

function all_matches :: "regexp \<Rightarrow> jsstring \<Rightarrow> nat \<Rightarrow> (nat \<times> nat) list" where
  "all_matches re s k =
     (case exec_from re s k of
        None \<Rightarrow> []
      | Some (i, e) \<Rightarrow> (i, e) # all_matches re s (if e = i then advance (unicode re) s e else e))"
  by pat_completeness auto
termination
proof (relation "measure (\<lambda>(re, s, k). Suc (length s) - k)", goal_cases)
  case 1
  then show ?case by simp
next
  case (2 re s k x i e)
  then have "exec_from re s k = Some (i, e)" by simp
  from exec_from_bounds[OF this] show ?case
    by (auto simp: advance_def)
qed

declare all_matches.simps [simp del]

fun splice :: "jsstring \<Rightarrow> (jsstring \<Rightarrow> jsstring) \<Rightarrow> nat \<Rightarrow> (nat \<times> nat) list \<Rightarrow> jsstring" where
  "splice s f p [] = drop p s"
| "splice s f p ((i, e) # ms) =
     (if p \<le> i then take (i - p) (drop p s) @ f (take (e - i) (drop i s)) @ splice s f e ms
      else splice s f p ms)"

definition regexp_replace ::
  "regexp \<Rightarrow> jsstring \<Rightarrow> (jsstring \<Rightarrow> jsstring) \<Rightarrow> jsstring \<times> regexp" where
  "regexp_replace re s f =
     (if global re then (splice s f 0 (all_matches re s 0), re\<lparr>lastIndex := 0\<rparr>)
      else case regexp_exec re s of
             (None, re') \<Rightarrow> (s, re')
           | (Some m, re') \<Rightarrow> (splice s f 0 [m], re'))"

text \<open>A regular expression literal without the flags \<open>g\<close>, \<open>y\<close> and \<open>u\<close>.\<close>

definition compile :: "bool \<Rightarrow> regex \<Rightarrow> regexp" where
  "compile ic r = \<lparr>match_len = rx_match_len ic r, global = False, sticky = False,
                   unicode = False, lastIndex = 0\<rparr>"

section \<open>The pattern catalogue and the form validator (scripts/validators.js)\<close>

abbreviation Star :: "regex \<Rightarrow> regex" where "Star r \<equiv> Rep 0 None r"
abbreviation Plus :: "regex \<Rightarrow> regex" where "Plus r \<equiv> Rep 1 None r"
abbreviation Opt :: "regex \<Rightarrow> regex" where "Opt r \<equiv> Rep 0 (Some 1) r"

fun Seqs :: "regex list \<Rightarrow> regex" where
  "Seqs [] = Eps"
| "Seqs [r] = r"
| "Seqs (r # rs) = Seq r (Seqs rs)"

definition ws_ranges :: "(nat \<times> nat) list" where
  "ws_ranges = [(9, 13), (32, 32), (160, 160), (5760, 5760), (8192, 8202), (8232, 8233),
                (8239, 8239), (8287, 8287), (12288, 12288), (65279, 65279)]"

abbreviation Digit :: regex where "Digit \<equiv> Cls False [(48, 57)]"
abbreviation WordChar :: regex where "WordChar \<equiv> Cls False word_ranges"
abbreviation Space :: regex where "Space \<equiv> Cls False ws_ranges"
abbreviation NonSpace :: regex where "NonSpace \<equiv> Cls True ws_ranges"
abbreviation Letter :: regex where "Letter \<equiv> Cls False [(65, 90), (97, 122)]"

definition description_re :: regex where
  "description_re = Seqs [Bol, NonSpace, Opt (Seq (Star Dot) NonSpace), Eol]"

definition amount_body :: regex where
  "amount_body =
     Seqs [Grp 1 (Alt (Chr 48) (Seq (Cls False [(49, 57)]) (Star Digit))),
           Opt (Grp 2 (Seq (Chr 46) (Rep 1 (Some 2) Digit))),
           Eol]"

definition amount_re :: regex where
  "amount_re = Seq Bol amount_body"

definition date_re :: regex where
  "date_re =
     Seqs [Bol, Rep 4 (Some 4) Digit, Chr 45,
           Grp 1 (Alt (Seq (Chr 48) (Cls False [(49, 57)])) (Seq (Chr 49) (Cls False [(48, 50)]))),
           Chr 45,
           Grp 2 (Alt (Seq (Chr 48) (Cls False [(49, 57)]))
                 (Alt (Seq (Cls False [(49, 49), (50, 50)]) Digit)
                      (Seq (Chr 51) (Cls False [(48, 48), (49, 49)])))),
           Eol]"

definition category_re :: regex where
  "category_re =
     Seqs [Bol, Plus Letter, Star (Seq (Cls False [(32, 32), (45, 45)]) (Plus Letter)), Eol]"

definition duplicateWord_re :: regex where
  "duplicateWord_re = Seqs [WordB, Grp 1 (Plus WordChar), Plus Space, Bref 1, WordB]"

definition nonZeroAmount_re :: regex where
  "nonZeroAmount_re =
     Seqs [Bol, Look (Seq (Star Dot) (Cls False [(49, 57)])), amount_body]"

definition patterns :: "(jsstring \<times> regexp) list" where
  "patterns =
     [(js ''description'', compile False description_re),
      (js ''amount'', compile False amount_re),
      (js ''date'', compile False date_re),
      (js ''category'', compile False category_re),
      (js ''duplicateWord'', compile True duplicateWord_re),
      (js ''nonZeroAmount'', compile False nonZeroAmount_re)]"

text \<open>
  \<open>validate(field, value)\<close>: a field without a pattern passes. The six patterns have no
  \<open>g\<close> or \<open>y\<close> flag, so \<open>test\<close> leaves them as they are and only its result is kept.
  A field name that \<open>Object.prototype\<close> defines is not modelled.
\<close>

definition validate :: "jsstring \<Rightarrow> jsstring \<Rightarrow> bool" where
  "validate field v =
     (case map_of patterns field of
        None \<Rightarrow> True
      | Some re \<Rightarrow> fst (regexp_test re v))"

text \<open>
  \<open>parseFloat\<close>: leading white space is skipped, the longest prefix that is a decimal
  literal is read, and the result is \<open>NaN\<close>, an infinity, or the double nearest to the
  mathematical value of that prefix. The model returns the mathematical value; the double
  nearest to it is zero exactly when its magnitude is at most \<open>2^-1075\<close>.
\<close>

datatype pf = PF_NaN | PF_Inf bool | PF_Val rat

definition is_digit :: "nat \<Rightarrow> bool" where
  "is_digit c = (48 \<le> c \<and> c \<le> 57)"

definition digits_val :: "jsstring \<Rightarrow> nat" where
  "digits_val ds = foldl (\<lambda>a c. 10 * a + (c - 48)) 0 ds"

definition strip_sign :: "jsstring \<Rightarrow> bool \<times> jsstring" where
  "strip_sign s =
     (case s of
        [] \<Rightarrow> (False, [])
      | c # r \<Rightarrow> if c = 45 then (True, r) else if c = 43 then (False, r) else (False, s))"

definition exponent_of :: "jsstring \<Rightarrow> int" where
  "exponent_of s =
     (case s of
        [] \<Rightarrow> 0
      | c # r \<Rightarrow>
          if c = 101 \<or> c = 69 then
            (let (neg, r') = strip_sign r;
                 ds = takeWhile is_digit r'
             in if ds = [] then 0
                else if neg then - int (digits_val ds) else int (digits_val ds))
          else 0)"

definition scale10 :: "rat \<Rightarrow> int \<Rightarrow> rat" where
  "scale10 q e = (if 0 \<le> e then q * 10 ^ nat e else q / 10 ^ nat (- e))"

definition parseFloat :: "jsstring \<Rightarrow> pf" where
  "parseFloat s =
     (let (neg, u) = strip_sign (trimStart s)
      in if take 8 u = js ''Infinity'' then PF_Inf neg
         else
           let ip = takeWhile is_digit u;
               r1 = dropWhile is_digit u;
               fp = (case r1 of [] \<Rightarrow> [] | c # r \<Rightarrow> if c = 46 then takeWhile is_digit r else []);
               r2 = (case r1 of [] \<Rightarrow> [] | c # r \<Rightarrow> if c = 46 then dropWhile is_digit r else r1)
           in if ip = [] \<and> fp = [] then PF_NaN
              else
                let m = of_nat (digits_val ip) + of_nat (digits_val fp) / 10 ^ length fp;
                    v = scale10 m (exponent_of r2)
                in PF_Val (if neg then - v else v))"

definition is_zero :: "pf \<Rightarrow> bool" where
  "is_zero p = (case p of PF_Val q \<Rightarrow> \<bar>q\<bar> \<le> 1 / 2 ^ 1075 | _ \<Rightarrow> False)"

text \<open>The six messages of \<open>validateForm\<close>.\<close>

definition err_description :: jsstring where
  "err_description = js ''Description must not be empty or start/end with spaces.''"

definition err_amount :: jsstring where
  "err_amount = js ''Amount must be a positive number with at most 2 decimal places.''"

definition err_zero :: jsstring where
  "err_zero = js ''Amount must be greater than zero.''"

definition err_category :: jsstring where
  "err_category = js ''Category: letters only, words separated by a space or hyphen.''"

definition err_date :: jsstring where
  "err_date = js ''Date must be in YYYY-MM-DD format.''"

definition err_duplicate :: jsstring where
  "err_duplicate = js ''Description contains a repeated word (e.g. \"lunch lunch\").''"

text \<open>
  \<open>validateForm({ desc, amount, category, date })\<close> on the four strings of the form;
  \<open>None\<close> is \<open>null\<close>.
\<close>

definition validateForm :: "jsstring \<Rightarrow> jsstring \<Rightarrow> jsstring \<Rightarrow> jsstring \<Rightarrow> jsstring option" where
  "validateForm desc amt cat dat =
     (if \<not> validate (js ''description'') desc then Some err_description
      else if \<not> validate (js ''amount'') amt then Some err_amount
      else if is_zero (parseFloat amt) then Some err_zero
      else if \<not> validate (js ''category'') cat then Some err_category
      else if \<not> validate (js ''date'') dat then Some err_date
      else if validate (js ''duplicateWord'') desc then Some err_duplicate
      else None)"

text \<open>
  The same validator with the greater-than-zero rule decided by the catalogued pattern
  \<open>nonZeroAmount\<close> instead of \<open>parseFloat\<close>: what the catalogue describes, for comparison
  with what \<open>validateForm\<close> does.
\<close>

definition validateForm_catalogued ::
  "jsstring \<Rightarrow> jsstring \<Rightarrow> jsstring \<Rightarrow> jsstring \<Rightarrow> jsstring option" where
  "validateForm_catalogued desc amt cat dat =
     (if \<not> validate (js ''description'') desc then Some err_description
      else if \<not> validate (js ''amount'') amt then Some err_amount
      else if \<not> validate (js ''nonZeroAmount'') amt then Some err_zero
      else if \<not> validate (js ''category'') cat then Some err_category
      else if \<not> validate (js ''date'') dat then Some err_date
      else if validate (js ''duplicateWord'') desc then Some err_duplicate
      else None)"

section \<open>Search (scripts/search.js)\<close>

text \<open>
  \<open>compileRegex(input, flags)\<close>. The constructor \<open>new RegExp(pattern, flags)\<close> belongs to the
  host and is a parameter: it returns an object or throws.
\<close>

definition compileRegex ::
  "(jsstring \<Rightarrow> jsstring \<Rightarrow> regexp outcome) \<Rightarrow> jsstring \<Rightarrow> jsstring \<Rightarrow> regexp option outcome" where
  "compileRegex RegExp_new input flags =
     (if input = [] \<or> trim input = [] then Return None
      else case RegExp_new (trim input) flags of
             Return re \<Rightarrow> Return (Some re)
           | Throw e \<Rightarrow> Return None)"

definition mark :: "jsstring \<Rightarrow> jsstring" where
  "mark m = js ''<mark class=\"search-hit\">'' @ m @ js ''</mark>''"

definition highlight :: "jsstring \<Rightarrow> regexp option \<Rightarrow> jsstring \<times> regexp option" where
  "highlight text re =
     (case re of
        None \<Rightarrow> (text, None)
      | Some r \<Rightarrow>
          if text = [] then (text, Some r)
          else case regexp_replace r text mark of (t, r') \<Rightarrow> (t, Some r'))"

text \<open>
  \<open>filterRecords\<close>: the three tests of a record are tried in order until one succeeds, and
  the RegExp object is the same throughout, so that its \<open>lastIndex\<close> is carried from one
  test to the next. \<open>test\<close> converts its argument to a string first; \<open>description\<close> and
  \<open>category\<close> are strings, and the conversion of a \<open>date\<close> that is not one can throw,
  which ends the filtering.
\<close>

fun filter_test :: "host \<Rightarrow> regexp \<Rightarrow> entry list \<Rightarrow> entry list outcome \<times> regexp" where
  "filter_test h re [] = (Return [], re)"
| "filter_test h re (r # rs) =
     (let (b1, re1) = regexp_test re (description r);
          (b2, re2) = (if b1 then (False, re1) else regexp_test re1 (category r))
      in if b1 \<or> b2 then
           (case filter_test h re2 rs of
              (Throw e, re') \<Rightarrow> (Throw e, re')
            | (Return kept, re') \<Rightarrow> (Return (r # kept), re'))
         else
           (case (if truthy (date r) then ToString h (date r) else Return []) of
              Throw e \<Rightarrow> (Throw e, re2)
            | Return d \<Rightarrow>
                (let (b3, re3) = regexp_test re2 d
                 in case filter_test h re3 rs of
                      (Throw e, re') \<Rightarrow> (Throw e, re')
                    | (Return kept, re') \<Rightarrow> (Return (if b3 then r # kept else kept), re'))))"

definition filterRecords ::
  "host \<Rightarrow> entry list \<Rightarrow> regexp option \<Rightarrow> entry list outcome \<times> regexp option" where
  "filterRecords h records re =
     (case re of
        None \<Rightarrow> (Return records, None)
      | Some r \<Rightarrow> (case filter_test h r records of (out, r') \<Rightarrow> (out, Some r')))"

section \<open>Statistics (computeStats in scripts/state.js)\<close>

text \<open>
  The sum of two numbers is the exact sum rounded to a double by the host. Where the exact
  sum is one of the operands (the other one is zero) there is nothing to round.
\<close>

fun num_add :: "host \<Rightarrow> jsnum \<Rightarrow> jsnum \<Rightarrow> jsnum" where
  "num_add h (Fin a) (Fin b) =
     (if a = 0 then Fin b else if b = 0 then Fin a else roundDouble h (a + b))"
| "num_add h NaN y = NaN"
| "num_add h x NaN = NaN"
| "num_add h PosInf NegInf = NaN"
| "num_add h NegInf PosInf = NaN"
| "num_add h PosInf y = PosInf"
| "num_add h x PosInf = PosInf"
| "num_add h NegInf y = NegInf"
| "num_add h x NegInf = NegInf"

text \<open>\<open>v > 0\<close> and \<open>Number(r.amount || 0)\<close>.\<close>

fun num_positive :: "jsnum \<Rightarrow> bool" where
  "num_positive (Fin q) = (0 < q)"
| "num_positive PosInf = True"
| "num_positive _ = False"

definition amount_or_zero :: "entry \<Rightarrow> jsnum" where
  "amount_or_zero r = (if truthy (JNum (amount r)) then amount r else Fin 0)"

text \<open>
  \<open>categoryMap[cat] = (categoryMap[cat] || 0) + 1\<close> on an object that keeps its keys in the
  order of their first insertion. A category that names a property of \<open>Object.prototype\<close>
  is not modelled.
\<close>

fun bump :: "jsstring \<Rightarrow> (jsstring \<times> nat) list \<Rightarrow> (jsstring \<times> nat) list" where
  "bump k [] = [(k, 1)]"
| "bump k ((k', n) # m) = (if k = k' then (k', Suc n) # m else (k', n) # bump k m)"

definition category_key :: "entry \<Rightarrow> jsstring" where
  "category_key r = (if category r = [] then js ''Uncategorized'' else category r)"

text \<open>
  \<open>Object.entries\<close>: the keys that are array indices come first, in ascending numeric
  order, then the other keys in insertion order.
\<close>

definition is_array_index :: "jsstring \<Rightarrow> bool" where
  "is_array_index k =
     (k \<noteq> [] \<and> list_all is_digit k \<and> (k = [48] \<or> hd k \<noteq> 48) \<and> digits_val k < 2 ^ 32 - 1)"

definition entries :: "(jsstring \<times> nat) list \<Rightarrow> (jsstring \<times> nat) list" where
  "entries m =
     sort_key (\<lambda>(k, n). digits_val k) (filter (\<lambda>(k, n). is_array_index k) m)
     @ filter (\<lambda>(k, n). \<not> is_array_index k) m"

record stats =
  total :: nat
  sumAmount :: jsnum
  topCategory :: jsstring
  categoryMap :: "(jsstring \<times> nat) list"
  last7Count :: nat
  last7Sum :: jsnum
  dayBuckets :: "jsstring list"
  dailyTotals :: "jsnum list"

text \<open>
  \<open>computeStats(records)\<close>; \<open>today\<close> is the clock reading of its \<open>new Date()\<close>. The sort by
  descending count is stable, and \<open>setDate\<close> moves the local calendar day, which is the
  host's \<open>daysBefore\<close>.
\<close>

definition computeStats :: "host \<Rightarrow> int \<Rightarrow> entry list \<Rightarrow> stats" where
  "computeStats h today records =
     (let total = length records;
          sum = foldl (\<lambda>acc r. num_add h acc (amount_or_zero r)) (Fin 0) records;
          categoryMap = foldl (\<lambda>m r. bump (category_key r) m) [] records;
          topCategory = (case sort_key (\<lambda>(k, n). - int n) (entries categoryMap) of
                           [] \<Rightarrow> js ''None''
                         | (k, n) # rest \<Rightarrow> if k = [] then js ''None'' else k);
          dayBuckets = map (\<lambda>i. take 10 (toISOString (daysBefore h today (6 - i)))) [0..<7];
          dailyTotals = map (\<lambda>day. foldl (\<lambda>s r. num_add h s (amount_or_zero r)) (Fin 0)
                                       (filter (\<lambda>r. strict_eq (date r) (JStr day)) records))
                            dayBuckets;
          last7Count = foldl (\<lambda>s v. s + (if num_positive v then 1 else 0)) 0 dailyTotals;
          last7Sum = foldl (\<lambda>s v. num_add h s v) (Fin 0) dailyTotals
      in \<lparr>total = total, sumAmount = sum, topCategory = topCategory, categoryMap = categoryMap,
          last7Count = last7Count, last7Sum = last7Sum, dayBuckets = dayBuckets,
          dailyTotals = dailyTotals\<rparr>)"

section \<open>The shape of a record, runs of calls and worked examples\<close>

text \<open>
  The shape \<open>normalise\<close> gives a record (\<open>Ensure every field is present and correctly
  typed\<close>): an identifier, a date and both timestamps that are not falsy, an amount that is
  a number, and a description and a category that are texts without white space at either
  end. Either text may be empty.
\<close>

definition valid_shape :: "entry \<Rightarrow> bool" where
  "valid_shape r = (truthy (rid r) \<and> trim (description r) = description r \<and> amount r \<noteq> NaN
                    \<and> trim (category r) = category r \<and> truthy (date r)
                    \<and> truthy (createdAt r) \<and> truthy (updatedAt r))"


subsection \<open>Worked examples\<close>

text \<open>
  A host for the worked examples: the clock starts at 1000 ms and advances by one
  millisecond at each reading. A second host has a clock that stands still.
\<close>

definition demo_host :: host where
  "demo_host = \<lparr>clock = (\<lambda>n. 1000 + int n), numToString = (\<lambda>q. js ''7''),
                 stringToNumber = (\<lambda>s. NaN),
                 daysBefore = (\<lambda>t n. t - 86400000 * int n), roundDouble = Fin\<rparr>"


definition demo_entry :: "jsstring \<Rightarrow> entry" where
  "demo_entry i =
     \<lparr>rid = JStr i, description = js ''tea'', amount = Fin 5, category = js ''Food'',
      date = JStr (js ''2026-02-01''), createdAt = JStr (js ''2026-02-01T10:00:00.000Z''),
      updatedAt = JStr (js ''2026-02-01T10:00:00.000Z'')\<rparr>"

definition demo_store :: store where
  "demo_store = \<lparr>recs = [demo_entry (js ''a''), demo_entry (js ''b'')], counter = 2, ticks = 0\<rparr>"





text \<open>A list to import: a number, a partial object and a string.\<close>

definition mixed_list :: "jsval list" where
  "mixed_list = [JNum (Fin 5), JObj [(js ''description'', JStr (js ''tea''))], JStr (js ''x'')]"

text \<open>Updates that try to overwrite the identifier and the creation time.\<close>

definition override_updates :: jsval where
  "override_updates = JObj [(js ''id'', JStr (js ''other'')), (js ''createdAt'', JStr (js ''never'')),
                            (js ''description'', JStr (js ''coffee''))]"

text \<open>
  What \<open>JSON.parse\<close> makes of \<open>{"toString": 1}\<close>, and three inputs that carry it or its
  like: an element of an import, an input of \<open>addRecord\<close> and the updates of
  \<open>updateRecord\<close>.
\<close>

definition shadowing_object :: jsval where
  "shadowing_object = JObj [(js ''toString'', JNum (Fin 1))]"

definition shadowing_element :: jsval where
  "shadowing_element =
     JObj [(js ''id'', JStr (js ''x'')), (js ''description'', shadowing_object),
           (js ''amount'', JNum (Fin 5))]"


definition shadowing_updates :: jsval where
  "shadowing_updates = JObj [(js ''category'', JObj [(js ''toString'', JNull)])]"

text \<open>
  A collection as \<open>loadRecords\<close> may return it, written by another program: one record
  without a creation time and one whose identifier is the empty string.
\<close>

definition loaded_store :: store where
  "loaded_store =
     \<lparr>recs = [(demo_entry (js ''a''))\<lparr>createdAt := JNull\<rparr>, demo_entry []],
      counter = 2, ticks = 0\<rparr>"


text \<open>What \<open>new RegExp('tea', 'i')\<close> returns.\<close>

definition tea_i :: regexp where
  "tea_i = compile True (Seqs [Chr 116, Chr 101, Chr 97])"

text \<open>
  A constructor for the worked examples: it compiles the pattern \<open>tea\<close> with the flag
  \<open>i\<close> and throws on every other pattern, as the host's does on \<open>(\<close>.
\<close>

definition demo_RegExp :: "jsstring \<Rightarrow> jsstring \<Rightarrow> regexp outcome" where
  "demo_RegExp pattern flags =
     (if pattern = js ''tea'' \<and> flags = js ''i'' then Return tea_i else Throw SyntaxError)"

section \<open>Properties of the record store\<close>

lemma js_eq [simp]: "js a = js b \<longleftrightarrow> a = b"
  unfolding js_def by (simp add: inj_map_eq_map inj_on_def)

lemma js_Nil [simp]: "js s = [] \<longleftrightarrow> s = []"
  by (simp add: js_def)

lemma find_filter_none: "find p (filter (\<lambda>x. \<not> p x) xs) = None"
  by (induction xs) auto

lemma filter_all_id: "(\<forall>x\<in>set xs. q x) \<Longrightarrow> filter q xs = xs"
  by (induction xs) auto


lemma toISOString_nonempty: "toISOString t \<noteq> []"
  by (simp add: toISOString_def Let_def split: prod.splits)

lemma take10_toISOString_nonempty: "take 10 (toISOString t) \<noteq> []"
  using toISOString_nonempty by simp

lemma id_text_nonempty: "id_text t c \<noteq> []"
  by (simp add: id_text_def)

lemma genId_recs: "recs (snd (genId h st)) = recs st"
  by (simp add: genId_def Let_def)

lemma nowISO_recs: "recs (snd (nowISO h st)) = recs st"
  by (simp add: nowISO_def)

subsection \<open>Where the conversions throw\<close>

lemma conversion_outcome:
  "(unconvertible v \<longrightarrow> ToString h v = Throw TypeError)
   \<and> (\<not> unconvertible v \<longrightarrow> (\<exists>s. ToString h v = Return s))"
  "(list_ex unconvertible vs \<longrightarrow> element_texts h vs = Throw TypeError)
   \<and> (\<not> list_ex unconvertible vs \<longrightarrow> (\<exists>ss. element_texts h vs = Return ss))"
  by (induction h v and h vs rule: ToString_element_texts.induct)
     (auto split: outcome.splits)

lemma ToString_throws: "unconvertible v \<Longrightarrow> ToString h v = Throw TypeError"
  using conversion_outcome(1)[of v h] by simp

lemma ToString_returns: "\<not> unconvertible v \<Longrightarrow> \<exists>s. ToString h v = Return s"
  using conversion_outcome(1)[of v h] by simp

lemma ToNumber_throws:
  assumes "unconvertible v"
  shows "ToNumber h v = Throw TypeError"
proof -
  from assms have "ToString h v = Throw TypeError" by (rule ToString_throws)
  with assms show ?thesis by (cases v) (simp_all del: ToString.simps)
qed

lemma ToNumber_returns:
  assumes "\<not> unconvertible v"
  shows "\<exists>n. ToNumber h v = Return n"
proof -
  from assms obtain s where "ToString h v = Return s" using ToString_returns by blast
  then show ?thesis by (cases v) (simp_all del: ToString.simps)
qed

lemma unconvertible_or_else [simp]: "unconvertible (or_else a (JStr s)) = unconvertible a"
  by (cases a) (simp_all add: or_else_def)

subsection \<open>Trimming\<close>

lemma hd_rev_dropWhile_rev:
  assumes "rev (dropWhile P (rev t)) \<noteq> []"
  shows "hd (rev (dropWhile P (rev t))) = hd t"
proof -
  have "t = rev (takeWhile P (rev t) @ dropWhile P (rev t))" by simp
  also have "\<dots> = rev (dropWhile P (rev t)) @ rev (takeWhile P (rev t))"
    by (rule rev_append)
  finally have "hd t = hd (rev (dropWhile P (rev t)) @ rev (takeWhile P (rev t)))"
    by (rule arg_cong)
  also have "\<dots> = hd (rev (dropWhile P (rev t)))" using assms by (rule hd_append2)
  finally show ?thesis by (rule sym)
qed

lemma trim_idem: "trim (trim s) = trim s"
proof -
  let ?t = "dropWhile is_ws s"
  let ?u = "rev (dropWhile is_ws (rev ?t))"
  have front: "dropWhile is_ws ?u = ?u"
  proof (cases "?u = []")
    case True
    show ?thesis unfolding True by simp
  next
    case False
    from hd_rev_dropWhile_rev[OF False] have h: "hd ?u = hd ?t" .
    have "?t \<noteq> []"
    proof
      assume e: "?t = []"
      have "?u = []" unfolding e by simp
      with False show False by blast
    qed
    then have "\<not> is_ws (hd ?t)" by (rule hd_dropWhile)
    with h have "\<not> is_ws (hd ?u)" by simp
    then show ?thesis by (simp only: dropWhile_eq_self_iff) simp
  qed
  have "trim (trim s) = rev (dropWhile is_ws (rev (dropWhile is_ws ?u)))"
    by (simp add: trim_def)
  also have "\<dots> = rev (dropWhile is_ws (rev ?u))" by (simp only: front)
  also have "\<dots> = ?u" by simp
  finally show ?thesis by (simp add: trim_def)
qed

subsection \<open>What \<open>normalise\<close> returns and where it throws\<close>

lemma normalise_nullish:
  "r = JUndefined \<or> r = JNull \<Longrightarrow> normalise h r st = (Throw TypeError, st)"
  by (auto simp: normalise_def)

lemma normalise_Return:
  assumes "normalise h r st = (Return e, st')"
  shows "valid_shape e \<and> recs st' = recs st"
proof -
  from assms have nn: "r \<noteq> JUndefined" "r \<noteq> JNull"
    by (auto simp: normalise_def)
  from assms nn obtain ds n cs where
    c: "ToString h (or_else (get_prop r (js ''description'')) (JStr [])) = Return ds"
       "ToNumber h (get_prop r (js ''amount'')) = Return n"
       "ToString h (or_else (get_prop r (js ''category'')) (JStr (js ''Other''))) = Return cs"
    by (auto simp: normalise_def Let_def split: outcome.splits prod.splits)
  from assms nn show ?thesis
    unfolding normalise_def c
    by (auto simp: Let_def valid_shape_def trim_idem genId_def nowISO_def
        id_text_nonempty toISOString_nonempty split: if_splits)
qed

lemma normalise_Throw:
  assumes "normalise h r st = (Throw x, st')"
  shows "x = TypeError \<and> recs st' = recs st
         \<and> (r = JUndefined \<or> r = JNull \<or> \<not> coercible r)"
proof (cases "r = JUndefined \<or> r = JNull")
  case True
  with assms show ?thesis by (auto simp: normalise_nullish)
next
  case False
  show ?thesis
  proof (cases "coercible r")
    case True
    then obtain ds n cs where
      c: "ToString h (or_else (get_prop r (js ''description'')) (JStr [])) = Return ds"
         "ToNumber h (get_prop r (js ''amount'')) = Return n"
         "ToString h (or_else (get_prop r (js ''category'')) (JStr (js ''Other''))) = Return cs"
      using ToString_returns[of "or_else (get_prop r (js ''description'')) (JStr [])" h]
            ToNumber_returns[of "get_prop r (js ''amount'')" h]
            ToString_returns[of "or_else (get_prop r (js ''category'')) (JStr (js ''Other''))" h]
      by (auto simp: coercible_def)
    from assms False show ?thesis
      unfolding normalise_def c
      by (auto simp: Let_def split: if_splits prod.splits)
  next
    case nc: False
    have t: "\<And>v y. ToString h v = Throw y \<Longrightarrow> y = TypeError"
      using conversion_outcome(1) by (metis outcome.inject(1) outcome.distinct(1))
    have u: "\<And>v y. ToNumber h v = Throw y \<Longrightarrow> y = TypeError"
      using ToNumber_throws ToNumber_returns by (metis outcome.inject(1) outcome.distinct(1))
    from assms False nc t u show ?thesis
      by (auto simp: normalise_def Let_def genId_def split: if_splits prod.splits outcome.splits)
  qed
qed

lemma normalise_returns:
  assumes "r \<noteq> JUndefined" "r \<noteq> JNull" "coercible r"
  shows "\<exists>e st'. normalise h r st = (Return e, st') \<and> valid_shape e \<and> recs st' = recs st"
proof (cases "normalise h r st")
  case (Pair out st')
  show ?thesis
  proof (cases out)
    case (Throw x)
    with Pair normalise_Throw[of h r st x st'] assms show ?thesis by simp
  next
    case (Return e)
    with Pair normalise_Return[of h r st e st'] show ?thesis by simp
  qed
qed

lemma normalise_throws:
  assumes "r = JUndefined \<or> r = JNull \<or> \<not> coercible r"
  shows "fst (normalise h r st) = Throw TypeError \<and> recs (snd (normalise h r st)) = recs st"
proof (cases "r = JUndefined \<or> r = JNull")
  case True
  then show ?thesis by (simp add: normalise_nullish)
next
  case False
  with assms have nc: "\<not> coercible r" by simp
  show ?thesis
  proof (cases "normalise h r st")
    case (Pair out st')
    show ?thesis
    proof (cases out)
      case (Throw x)
      with Pair normalise_Throw[of h r st x st'] show ?thesis by simp
    next
      case (Return e)
      have "unconvertible (get_prop r (js ''description''))
            \<or> unconvertible (get_prop r (js ''amount''))
            \<or> unconvertible (get_prop r (js ''category''))"
        using nc by (auto simp: coercible_def)
      then have "ToString h (or_else (get_prop r (js ''description'')) (JStr [])) = Throw TypeError
            \<or> ToNumber h (get_prop r (js ''amount'')) = Throw TypeError
            \<or> ToString h (or_else (get_prop r (js ''category'')) (JStr (js ''Other'')))
                = Throw TypeError"
        using ToString_throws[of "or_else (get_prop r (js ''description'')) (JStr [])" h]
              ToNumber_throws[of "get_prop r (js ''amount'')" h]
              ToString_throws[of "or_else (get_prop r (js ''category'')) (JStr (js ''Other''))" h]
        by auto
      with Pair Return False show ?thesis
        by (auto simp: normalise_def Let_def split: if_splits prod.splits outcome.splits)
    qed
  qed
qed

lemma normalise_recs: "recs (snd (normalise h r st)) = recs st"
proof (cases "normalise h r st")
  case (Pair out st')
  then show ?thesis
    using normalise_Return[of h r st _ st'] normalise_Throw[of h r st _ st']
    by (cases out) auto
qed

lemma map_normalise_recs: "recs (snd (map_normalise h xs st)) = recs st"
proof (induction xs arbitrary: st)
  case Nil
  then show ?case by simp
next
  case (Cons x xs)
  show ?case
  proof (cases "normalise h x st")
    case (Pair out st1)
    with normalise_recs[of h x st] have r: "recs st1 = recs st" by simp
    show ?thesis
    proof (cases out)
      case (Throw e)
      with Pair r show ?thesis by simp
    next
      case (Return e)
      with Pair r Cons.IH[of st1] show ?thesis
        by (auto split: prod.splits outcome.splits)
    qed
  qed
qed

lemma map_normalise_throws:
  "\<exists>x\<in>set xs. x = JUndefined \<or> x = JNull \<or> \<not> coercible x \<Longrightarrow>
   fst (map_normalise h xs st) = Throw TypeError"
proof (induction xs arbitrary: st)
  case Nil
  then show ?case by simp
next
  case (Cons x xs)
  show ?case
  proof (cases "x = JUndefined \<or> x = JNull \<or> \<not> coercible x")
    case True
    from normalise_throws[OF True, of h st] show ?thesis
      by (cases "normalise h x st") simp
  next
    case False
    then obtain e st1 where n: "normalise h x st = (Return e, st1)"
      using normalise_returns[of x h st] by auto
    from False Cons.prems have "\<exists>x\<in>set xs. x = JUndefined \<or> x = JNull \<or> \<not> coercible x"
      by auto
    from Cons.IH[OF this, of st1] n show ?thesis
      by (auto split: prod.splits outcome.splits)
  qed
qed

lemma map_normalise_returns:
  "\<forall>x\<in>set xs. x \<noteq> JUndefined \<and> x \<noteq> JNull \<and> coercible x \<Longrightarrow>
   \<exists>rs st'. map_normalise h xs st = (Return rs, st')
     \<and> list_all2 (\<lambda>x r. \<exists>s s'. normalise h x s = (Return r, s')) xs rs
     \<and> (\<forall>r\<in>set rs. valid_shape r)"
proof (induction xs arbitrary: st)
  case Nil
  then show ?case by simp
next
  case (Cons x xs)
  then obtain e st1 where n: "normalise h x st = (Return e, st1)" "valid_shape e"
    using normalise_returns[of x h st] by auto
  from Cons.prems have "\<forall>x\<in>set xs. x \<noteq> JUndefined \<and> x \<noteq> JNull \<and> coercible x" by simp
  from Cons.IH[OF this, of st1] obtain rs st2 where
    m: "map_normalise h xs st1 = (Return rs, st2)"
       "list_all2 (\<lambda>x r. \<exists>s s'. normalise h x s = (Return r, s')) xs rs"
       "\<forall>r\<in>set rs. valid_shape r"
    by blast
  from n m show ?case by auto
qed

lemma strict_eq_imp_eq: "strict_eq a b \<Longrightarrow> a = b"
  by (cases a; cases b) auto

lemma findIndex_None: "findIndex p xs = None \<longleftrightarrow> (\<forall>x\<in>set xs. \<not> p x)"
  by (induction xs) auto

lemma findIndex_Some:
  "findIndex p xs = Some k \<Longrightarrow> k < length xs \<and> p (xs ! k) \<and> (\<forall>j<k. \<not> p (xs ! j))"
proof (induction xs arbitrary: k)
  case Nil
  then show ?case by simp
next
  case (Cons x xs)
  show ?case
  proof (cases "p x")
    case True
    with Cons.prems show ?thesis by simp
  next
    case False
    with Cons.prems obtain k' where k: "findIndex p xs = Some k'" "k = Suc k'" by auto
    from Cons.IH[OF k(1)] False k(2) show ?thesis
      by (auto simp: less_Suc_eq_0_disj)
  qed
qed

lemma normalise_obj_fields:
  assumes "map_of ps (js ''id'') = Some i" "truthy i"
      and "map_of ps (js ''createdAt'') = Some c" "truthy c"
      and "map_of ps (js ''updatedAt'') = Some u" "truthy u"
      and "coercible (JObj ps)"
  shows "\<exists>e st'. normalise h (JObj ps) st = (Return e, st') \<and> rid e = i \<and> createdAt e = c
            \<and> updatedAt e = u \<and> valid_shape e \<and> recs st' = recs st \<and> counter st' = counter st"
proof -
  let ?r = "JObj ps"
  from assms(7) obtain ds n cs where
    cv: "ToString h (or_else (get_prop ?r (js ''description'')) (JStr [])) = Return ds"
        "ToNumber h (get_prop ?r (js ''amount'')) = Return n"
        "ToString h (or_else (get_prop ?r (js ''category'')) (JStr (js ''Other''))) = Return cs"
    using ToString_returns[of "or_else (get_prop ?r (js ''description'')) (JStr [])" h]
          ToNumber_returns[of "get_prop ?r (js ''amount'')" h]
          ToString_returns[of "or_else (get_prop ?r (js ''category'')) (JStr (js ''Other''))" h]
    by (auto simp: coercible_def)
  have g: "get_prop ?r (js ''id'') = i" "get_prop ?r (js ''createdAt'') = c"
    "get_prop ?r (js ''updatedAt'') = u"
    using assms(1,3,5) by (simp_all add: get_prop_def)
  show ?thesis
    unfolding normalise_def cv g
    using assms(2,4,6)
    by (simp add: Let_def valid_shape_def trim_idem nowISO_def toISOString_nonempty
        split: prod.splits)
qed

text \<open>
  The object \<open>addRecord\<close> and \<open>updateRecord\<close> hand to \<open>normalise\<close> takes its \<open>description\<close>,
  \<open>amount\<close> and \<open>category\<close> from the input, or from the stored record where the updates
  have none, and the stored ones are a text, a number and a text.
\<close>

lemma coercible_text: "coercible (JStr s)"
proof -
  have "\<not> unconvertible (get_prop (JStr s) k)" for k
  proof (cases "map_of (own_props (JStr s)) k")
    case None
    show ?thesis unfolding get_prop_def None by simp
  next
    case (Some x)
    then have "(k, x) \<in> set (own_props (JStr s))" by (rule map_of_SomeD)
    then have "x \<in> set (map (\<lambda>c. JStr [c]) s)" by (auto dest: set_zip_rightD)
    then obtain c where c: "x = JStr [c]" by auto
    show ?thesis unfolding get_prop_def Some c by simp
  qed
  then show ?thesis by (simp only: coercible_def) simp
qed


lemma coercible_merged:
  "coercible (JObj ([(js ''id'', a), (js ''createdAt'', b), (js ''updatedAt'', c)]
                    @ own_props u @ entry_props old))
     = coercible u"
  by (auto simp: coercible_def get_prop_def entry_props_def map_add_def split: option.splits)










text \<open>
  Every operation of the store keeps the collection in shape: what it stores comes out of
  \<open>normalise\<close>, and a call that throws stores nothing.
\<close>

lemma map_normalise_shape:
  "map_normalise h xs st = (Return rs, st') \<Longrightarrow> \<forall>r\<in>set rs. valid_shape r"
proof (induction xs arbitrary: st rs)
  case Nil
  then show ?case by simp
next
  case (Cons x xs)
  from Cons.prems obtain e st1 rs' where n: "normalise h x st = (Return e, st1)"
    and m: "map_normalise h xs st1 = (Return rs', st')" and rs: "rs = e # rs'"
    by (auto split: prod.splits outcome.splits)
  from normalise_Return[OF n] Cons.IH[OF m] rs show ?case by simp
qed

lemma store_keeps_shape:
  assumes "\<forall>r\<in>set (recs st). valid_shape r"
  shows "\<forall>r\<in>set (recs (snd (addRecord h d st))). valid_shape r"
    and "\<forall>r\<in>set (recs (snd (updateRecord h i u st))). valid_shape r"
    and "\<forall>r\<in>set (recs (snd (deleteRecord i st))). valid_shape r"
    and "\<forall>r\<in>set (recs (snd (replaceAll h v st))). valid_shape r"
proof -
  show "\<forall>r\<in>set (recs (snd (addRecord h d st))). valid_shape r"
  proof (cases "\<not> truthy d \<or> \<not> typeof_object d")
    case True
    with assms show ?thesis by (auto simp: addRecord_def)
  next
    case False
    let ?st3 = "snd (nowISO h (snd (nowISO h (snd (genId h st)))))"
    let ?obj = "JObj ([(js ''id'', JStr (fst (genId h st))),
                       (js ''createdAt'', JStr (fst (nowISO h (snd (genId h st))))),
                       (js ''updatedAt'', JStr (fst (nowISO h (snd (nowISO h (snd (genId h st)))))))]
                      @ own_props d)"
    have r3: "recs ?st3 = recs st" by (simp add: nowISO_recs genId_recs)
    show ?thesis
    proof (cases "normalise h ?obj ?st3")
      case (Pair out st4)
      show ?thesis
      proof (cases out)
        case (Throw x)
        with Pair normalise_Throw[of h ?obj ?st3 x st4] False r3 assms show ?thesis
          by (simp add: addRecord_def Let_def split_beta)
      next
        case (Return e)
        with Pair normalise_Return[of h ?obj ?st3 e st4] False r3 assms show ?thesis
          by (simp add: addRecord_def Let_def split_beta)
      qed
    qed
  qed
next
  show "\<forall>r\<in>set (recs (snd (updateRecord h i u st))). valid_shape r"
  proof (cases "findIndex (\<lambda>r. strict_eq (rid r) i) (recs st)")
    case None
    with assms show ?thesis by (simp add: updateRecord_def)
  next
    case (Some k)
    let ?st1 = "snd (nowISO h st)"
    let ?obj = "JObj ([(js ''id'', i), (js ''createdAt'', createdAt (recs st ! k)),
                       (js ''updatedAt'', JStr (fst (nowISO h st)))]
                      @ own_props u @ entry_props (recs st ! k))"
    have r1: "recs ?st1 = recs st" by (simp add: nowISO_recs)
    show ?thesis
    proof (cases "normalise h ?obj ?st1")
      case (Pair out st2)
      show ?thesis
      proof (cases out)
        case (Throw x)
        with Pair normalise_Throw[of h ?obj ?st1 x st2] Some r1 assms show ?thesis
          by (simp add: updateRecord_def Let_def split_beta)
      next
        case (Return e)
        with Pair normalise_Return[of h ?obj ?st1 e st2] Some r1 assms show ?thesis
          using set_update_subset_insert[of "recs st" k e]
          by (auto simp: updateRecord_def Let_def split_beta)
      qed
    qed
  qed
next
  show "\<forall>r\<in>set (recs (snd (deleteRecord i st))). valid_shape r"
    using assms by (simp add: deleteRecord_def Let_def)
next
  show "\<forall>r\<in>set (recs (snd (replaceAll h v st))). valid_shape r"
  proof (cases v)
    case (JArr xs)
    show ?thesis
    proof (cases "map_normalise h xs st")
      case (Pair out st1)
      show ?thesis
      proof (cases out)
        case (Throw e)
        with Pair JArr assms map_normalise_recs[of h xs st] show ?thesis
          by (simp add: replaceAll_def)
      next
        case (Return rs)
        with Pair map_normalise_shape[of h xs st rs st1] JArr show ?thesis
          by (simp add: replaceAll_def)
      qed
    qed
  qed (use assms in \<open>simp_all add: replaceAll_def\<close>)
qed

subsection \<open>Evaluating the worked examples\<close>



lemma civil_from_days_0: "civil_from_days 0 = (1970, 1, 1)"
  unfolding civil_from_days_def Let_def by simp

lemma pad_evals: "pad 4 1970 = [49, 57, 55, 48]" "pad 2 0 = [48, 48]" "pad 2 (Suc 0) = [48, 49]"
  "pad 3 (Suc 0) = [48, 48, 49]" "pad 3 2 = [48, 48, 50]" "pad 3 0 = [48, 48, 48]"
  by code_simp+

lemma iso_1000: "toISOString 1000 = js ''1970-01-01T00:00:01.000Z''"
  by (simp add: toISOString_def civil_from_days_0 pad_evals js_def)

lemma iso_1001: "toISOString 1001 = js ''1970-01-01T00:00:01.001Z''"
  by (simp add: toISOString_def civil_from_days_0 pad_evals js_def)




lemma id_text_1001_3: "id_text 1001 3 = js ''rec_1001_3''"
  by (simp add: id_text_def int_to_str_def to_radix.simps digit_char_def js_def)








lemma empty_description_rejected: "\<not> validate (js ''description'') []"
  by (simp add: validate_def patterns_def description_re_def regexp_test_def regexp_exec_def
      compile_def exec_from.simps rx_match_len_def rx_run.simps(10) js_def canon_def
      cls_found_def in_ranges_def ws_ranges_def advance_def clear_groups_def is_line_term_def)

text \<open>
  C8. Whatever the identifier, looking it up after deleting it finds nothing; deleting an
  identifier that is present returns true, and deleting one that no stored record carries
  returns false and leaves the store (contents and size) as it was.
\<close>

theorem delete_then_get:
  "getRecord i (snd (deleteRecord i st)) = None
   \<and> ((\<exists>r\<in>set (recs st). strict_eq (rid r) i) \<longrightarrow> fst (deleteRecord i st))
   \<and> ((\<forall>r\<in>set (recs st). \<not> strict_eq (rid r) i) \<longrightarrow>
        deleteRecord i st = (False, st))"
proof (intro conjI impI)
  show "getRecord i (snd (deleteRecord i st)) = None"
    by (simp add: getRecord_def deleteRecord_def Let_def find_filter_none)
next
  assume "\<exists>r\<in>set (recs st). strict_eq (rid r) i"
  then have "length (filter (\<lambda>r. \<not> strict_eq (rid r) i) (recs st)) < length (recs st)"
    by (intro length_filter_less[where x = "SOME r. r \<in> set (recs st) \<and> strict_eq (rid r) i"])
       (auto intro: someI2_ex)
  then show "fst (deleteRecord i st)"
    by (simp add: deleteRecord_def Let_def)
next
  assume "\<forall>r\<in>set (recs st). \<not> strict_eq (rid r) i"
  then have "filter (\<lambda>r. \<not> strict_eq (rid r) i) (recs st) = recs st"
    by (rule filter_all_id)
  then show "deleteRecord i st = (False, st)"
    by (simp add: deleteRecord_def Let_def)
qed

theorem delete_then_get_witness:
  "(\<exists>r\<in>set (recs demo_store). strict_eq (rid r) (JStr (js ''a'')))
   \<and> fst (deleteRecord (JStr (js ''a'')) demo_store)
   \<and> getRecord (JStr (js ''a'')) (snd (deleteRecord (JStr (js ''a'')) demo_store)) = None
   \<and> \<not> (\<exists>r\<in>set (recs demo_store). strict_eq (rid r) (JStr (js ''zz'')))
   \<and> deleteRecord (JStr (js ''zz'')) demo_store = (False, demo_store)"
  using delete_then_get [of "JStr (js ''a'')" demo_store]
        delete_then_get [of "JStr (js ''zz'')" demo_store]
  by (simp add: demo_store_def demo_entry_def)

text \<open>
  C7. For every input that is not an array, \<open>replaceAll\<close> returns false and the module
  state, the record collection included, is exactly what it was.
\<close>

theorem replaceAll_not_array:
  "\<not> isArray v \<Longrightarrow> replaceAll h v st = (Return False, st)"
  by (cases v) (simp_all add: replaceAll_def)

theorem replaceAll_not_array_witness:
  "\<not> isArray (JObj [(js ''id'', JStr (js ''x''))])
   \<and> replaceAll demo_host (JObj [(js ''id'', JStr (js ''x''))]) demo_store
       = (Return False, demo_store)"
  using replaceAll_not_array [of "JObj [(js ''id'', JStr (js ''x''))]" demo_host demo_store]
  by simp

text \<open>
  C2, as the code has it. \<open>replaceAll\<close> accepts a list when none of its elements is \<open>null\<close>
  or \<open>undefined\<close> and none carries, as its \<open>description\<close>, \<open>amount\<close> or \<open>category\<close>, a value
  on which \<open>String\<close> or \<open>Number\<close> throws: it then returns true without throwing, the
  collection becomes the list of the normalised elements, in order and one for one, and each
  of them has the shape \<open>normalise\<close> gives; numbers, strings and partial objects are coerced,
  not rejected. On every other list \<open>normalise\<close> throws a TypeError, and the collection
  stays as it was.
\<close>

theorem replaceAll_list:
  "((\<forall>x\<in>set xs. x \<noteq> JUndefined \<and> x \<noteq> JNull \<and> coercible x) \<longrightarrow>
      (\<exists>rs st'. replaceAll h (JArr xs) st = (Return True, st') \<and> recs st' = rs
         \<and> list_all2 (\<lambda>x r. \<exists>s s'. normalise h x s = (Return r, s')) xs rs
         \<and> (\<forall>r\<in>set rs. valid_shape r)))
   \<and> ((\<exists>x\<in>set xs. x = JUndefined \<or> x = JNull \<or> \<not> coercible x) \<longrightarrow>
      fst (replaceAll h (JArr xs) st) = Throw TypeError
      \<and> recs (snd (replaceAll h (JArr xs) st)) = recs st)"
proof (intro conjI impI)
  assume "\<forall>x\<in>set xs. x \<noteq> JUndefined \<and> x \<noteq> JNull \<and> coercible x"
  from map_normalise_returns[OF this, of h st]
  show "\<exists>rs st'. replaceAll h (JArr xs) st = (Return True, st') \<and> recs st' = rs
         \<and> list_all2 (\<lambda>x r. \<exists>s s'. normalise h x s = (Return r, s')) xs rs
         \<and> (\<forall>r\<in>set rs. valid_shape r)"
    by (auto simp: replaceAll_def)
next
  assume a: "\<exists>x\<in>set xs. x = JUndefined \<or> x = JNull \<or> \<not> coercible x"
  from map_normalise_throws[OF a, of h st]
  show "fst (replaceAll h (JArr xs) st) = Throw TypeError"
    by (cases "map_normalise h xs st") (simp add: replaceAll_def)
  from map_normalise_throws[OF a, of h st] map_normalise_recs[of h xs st]
  show "recs (snd (replaceAll h (JArr xs) st)) = recs st"
    by (cases "map_normalise h xs st") (simp add: replaceAll_def)
qed

theorem replaceAll_list_witness:
  "\<not> (\<exists>x\<in>set mixed_list. x = JUndefined \<or> x = JNull \<or> \<not> coercible x)
   \<and> (\<exists>rs st'. replaceAll demo_host (JArr mixed_list) demo_store = (Return True, st')
         \<and> recs st' = rs \<and> length rs = 3 \<and> list_all valid_shape rs)
   \<and> (\<exists>x\<in>set [JNum (Fin 5), JNull]. x = JUndefined \<or> x = JNull \<or> \<not> coercible x)
   \<and> fst (replaceAll demo_host (JArr [JNum (Fin 5), JNull]) demo_store) = Throw TypeError
   \<and> recs (snd (replaceAll demo_host (JArr [JNum (Fin 5), JNull]) demo_store)) = recs demo_store
   \<and> (\<exists>x\<in>set [shadowing_element]. x = JUndefined \<or> x = JNull \<or> \<not> coercible x)
   \<and> fst (replaceAll demo_host (JArr [shadowing_element]) demo_store) = Throw TypeError
   \<and> recs (snd (replaceAll demo_host (JArr [shadowing_element]) demo_store)) = recs demo_store"
proof -
  have "coercible (JNum (Fin 5))" "coercible (JObj [(js ''description'', JStr (js ''tea''))])"
    by (simp_all add: coercible_def get_prop_def)
  then have a: "\<forall>x\<in>set mixed_list. x \<noteq> JUndefined \<and> x \<noteq> JNull \<and> coercible x"
    by (simp add: mixed_list_def coercible_text)
  have b: "\<exists>x\<in>set [JNum (Fin 5), JNull]. x = JUndefined \<or> x = JNull \<or> \<not> coercible x"
    by simp
  have c: "\<exists>x\<in>set [shadowing_element]. x = JUndefined \<or> x = JNull \<or> \<not> coercible x"
    by (simp add: shadowing_element_def shadowing_object_def coercible_def get_prop_def)
  have l: "length mixed_list = 3" by (simp add: mixed_list_def)
  from replaceAll_list[of mixed_list demo_host demo_store] a
  obtain rs st' where r: "replaceAll demo_host (JArr mixed_list) demo_store = (Return True, st')"
    "recs st' = rs"
    "list_all2 (\<lambda>x r. \<exists>s s'. normalise demo_host x s = (Return r, s')) mixed_list rs"
    "\<forall>r\<in>set rs. valid_shape r" by blast
  from r(3) l have "length rs = 3" by (simp add: list_all2_lengthD[symmetric])
  with r have d: "\<exists>rs st'. replaceAll demo_host (JArr mixed_list) demo_store = (Return True, st')
         \<and> recs st' = rs \<and> length rs = 3 \<and> list_all valid_shape rs"
    by (simp add: list_all_iff)
  from a have e: "\<not> (\<exists>x\<in>set mixed_list. x = JUndefined \<or> x = JNull \<or> \<not> coercible x)"
    by blast
  from replaceAll_list[of "[JNum (Fin 5), JNull]" demo_host demo_store] b
  have f: "fst (replaceAll demo_host (JArr [JNum (Fin 5), JNull]) demo_store) = Throw TypeError"
    "recs (snd (replaceAll demo_host (JArr [JNum (Fin 5), JNull]) demo_store)) = recs demo_store"
    by blast+
  from replaceAll_list[of "[shadowing_element]" demo_host demo_store] c
  have g: "fst (replaceAll demo_host (JArr [shadowing_element]) demo_store) = Throw TypeError"
    "recs (snd (replaceAll demo_host (JArr [shadowing_element]) demo_store)) = recs demo_store"
    by blast+
  from b c d e f g show ?thesis by (intro conjI)
qed

text \<open>
  C2 as stated fails. A list holding \<open>null\<close> is a list input, and \<open>replaceAll\<close> throws on it;
  so it does on a list holding an object whose \<open>description\<close> is \<open>{"toString": 1}\<close>. And
  the records it coerces need not be valid by the rules of the form: the number \<open>5\<close> becomes
  a record with the empty description, which the \<open>description\<close> pattern rejects.
\<close>

theorem replaceAll_rejects_counterexample:
  "fst (replaceAll demo_host (JArr [JNull]) demo_store) = Throw TypeError
   \<and> fst (replaceAll demo_host (JArr [shadowing_element]) demo_store) = Throw TypeError
   \<and> fst (replaceAll demo_host (JArr [JNum (Fin 5)]) demo_store) = Return True
   \<and> map description (recs (snd (replaceAll demo_host (JArr [JNum (Fin 5)]) demo_store))) = [[]]
   \<and> \<not> validate (js ''description'') []"
proof (intro conjI)
  show "fst (replaceAll demo_host (JArr [JNull]) demo_store) = Throw TypeError"
    by (simp add: replaceAll_def normalise_def)
  show "fst (replaceAll demo_host (JArr [shadowing_element]) demo_store) = Throw TypeError"
    by (simp add: replaceAll_def normalise_def shadowing_element_def shadowing_object_def
        get_prop_def or_else_def Let_def js_def)
  show "fst (replaceAll demo_host (JArr [JNum (Fin 5)]) demo_store) = Return True"
    by (simp add: replaceAll_def normalise_def get_prop_def or_else_def Let_def split_beta
        demo_host_def)
  show "map description (recs (snd (replaceAll demo_host (JArr [JNum (Fin 5)]) demo_store))) = [[]]"
    by (simp add: replaceAll_def normalise_def get_prop_def or_else_def Let_def split_beta
        demo_host_def trim_def)
  show "\<not> validate (js ''description'') []"
    by (rule empty_description_rejected)
qed

text \<open>
  C6, as the code has it. When no stored record carries the identifier, \<open>updateRecord\<close>
  returns \<open>null\<close> and the module state is what it was. When one does, the first such record
  is the target. If the stored records that carry the identifier have an identifier and a
  creation time that are not falsy, as every record that came out of \<open>normalise\<close> has, and
  \<open>String\<close> and \<open>Number\<close> do not throw on the \<open>description\<close>, \<open>amount\<close> and \<open>category\<close> of the
  updates, the call returns the updated record, whose identifier and creation time are the
  target's whatever the updates supply, whose \<open>updatedAt\<close> is the clock reading taken by the
  call, and which replaces the target in place; every other record is unchanged. If one of
  the conversions throws, the call throws a TypeError and the collection stays as it was.
\<close>

theorem updateRecord_frame:
  "((\<forall>r\<in>set (recs st). \<not> strict_eq (rid r) i) \<longrightarrow>
      updateRecord h i u st = (Return None, st))
   \<and> ((\<exists>r\<in>set (recs st). strict_eq (rid r) i)
       \<and> (\<forall>r\<in>set (recs st). strict_eq (rid r) i \<longrightarrow> truthy (rid r) \<and> truthy (createdAt r))
       \<and> coercible u \<longrightarrow>
      (\<exists>k r st'. k < length (recs st) \<and> strict_eq (rid (recs st ! k)) i
         \<and> (\<forall>j<k. \<not> strict_eq (rid (recs st ! j)) i)
         \<and> updateRecord h i u st = (Return (Some r), st')
         \<and> rid r = rid (recs st ! k)
         \<and> createdAt r = createdAt (recs st ! k)
         \<and> updatedAt r = JStr (toISOString (clock h (ticks st)))
         \<and> recs st' = (recs st)[k := r]
         \<and> (\<forall>j<length (recs st). j \<noteq> k \<longrightarrow> recs st' ! j = recs st ! j)))
   \<and> ((\<exists>r\<in>set (recs st). strict_eq (rid r) i) \<and> \<not> coercible u \<longrightarrow>
      fst (updateRecord h i u st) = Throw TypeError
      \<and> recs (snd (updateRecord h i u st)) = recs st)"
proof (intro conjI impI)
  assume "\<forall>r\<in>set (recs st). \<not> strict_eq (rid r) i"
  then have "findIndex (\<lambda>r. strict_eq (rid r) i) (recs st) = None"
    by (simp add: findIndex_None)
  then show "updateRecord h i u st = (Return None, st)"
    by (simp add: updateRecord_def)
next
  assume a: "(\<exists>r\<in>set (recs st). strict_eq (rid r) i)
       \<and> (\<forall>r\<in>set (recs st). strict_eq (rid r) i \<longrightarrow> truthy (rid r) \<and> truthy (createdAt r))
       \<and> coercible u"
  then obtain k where k: "findIndex (\<lambda>r. strict_eq (rid r) i) (recs st) = Some k"
    using findIndex_None[of "\<lambda>r. strict_eq (rid r) i" "recs st"]
    by (cases "findIndex (\<lambda>r. strict_eq (rid r) i) (recs st)") auto
  from findIndex_Some[OF k] have kl: "k < length (recs st)"
    and km: "strict_eq (rid (recs st ! k)) i"
    and kf: "\<forall>j<k. \<not> strict_eq (rid (recs st ! j)) i" by auto
  let ?old = "recs st ! k"
  from kl have "?old \<in> set (recs st)" by simp
  with a km have to: "truthy (rid ?old)" and tc: "truthy (createdAt ?old)" by blast+
  from strict_eq_imp_eq[OF km] have ieq: "i = rid ?old" by simp
  let ?t = "toISOString (clock h (ticks st))"
  let ?st1 = "st\<lparr>ticks := Suc (ticks st)\<rparr>"
  let ?ps = "[(js ''id'', i), (js ''createdAt'', createdAt ?old), (js ''updatedAt'', JStr ?t)]
               @ own_props u @ entry_props ?old"
  from a have co: "coercible (JObj ?ps)" by (simp only: coercible_merged)
  have "\<exists>e st'. normalise h (JObj ?ps) ?st1 = (Return e, st') \<and> rid e = i
          \<and> createdAt e = createdAt ?old \<and> updatedAt e = JStr ?t \<and> valid_shape e
          \<and> recs st' = recs ?st1 \<and> counter st' = counter ?st1"
    by (rule normalise_obj_fields[OF _ _ _ _ _ _ co])
       (use to tc ieq in \<open>simp_all add: toISOString_nonempty\<close>)
  then obtain e st2 where n: "normalise h (JObj ?ps) ?st1 = (Return e, st2)"
    and e: "rid e = i" "createdAt e = createdAt ?old" "updatedAt e = JStr ?t"
    and r2: "recs st2 = recs st" by auto
  have upd: "updateRecord h i u st = (Return (Some e), st2\<lparr>recs := (recs st)[k := e]\<rparr>)"
    using k n r2 by (simp add: updateRecord_def nowISO_def Let_def)
  show "\<exists>k r st'. k < length (recs st) \<and> strict_eq (rid (recs st ! k)) i
         \<and> (\<forall>j<k. \<not> strict_eq (rid (recs st ! j)) i)
         \<and> updateRecord h i u st = (Return (Some r), st')
         \<and> rid r = rid (recs st ! k)
         \<and> createdAt r = createdAt (recs st ! k)
         \<and> updatedAt r = JStr (toISOString (clock h (ticks st)))
         \<and> recs st' = (recs st)[k := r]
         \<and> (\<forall>j<length (recs st). j \<noteq> k \<longrightarrow> recs st' ! j = recs st ! j)"
    using kl km kf upd e ieq
    by (intro exI[of _ k] exI[of _ e] exI[of _ "st2\<lparr>recs := (recs st)[k := e]\<rparr>"]) simp
next
  assume a: "(\<exists>r\<in>set (recs st). strict_eq (rid r) i) \<and> \<not> coercible u"
  then obtain k where k: "findIndex (\<lambda>r. strict_eq (rid r) i) (recs st) = Some k"
    using findIndex_None[of "\<lambda>r. strict_eq (rid r) i" "recs st"]
    by (cases "findIndex (\<lambda>r. strict_eq (rid r) i) (recs st)") auto
  let ?old = "recs st ! k"
  let ?t = "toISOString (clock h (ticks st))"
  let ?st1 = "st\<lparr>ticks := Suc (ticks st)\<rparr>"
  let ?ps = "[(js ''id'', i), (js ''createdAt'', createdAt ?old), (js ''updatedAt'', JStr ?t)]
               @ own_props u @ entry_props ?old"
  from a have "\<not> coercible (JObj ?ps)" by (simp only: coercible_merged) simp
  then have "JObj ?ps = JUndefined \<or> JObj ?ps = JNull \<or> \<not> coercible (JObj ?ps)" by simp
  from normalise_throws[OF this, of h ?st1]
  obtain st2 where n: "normalise h (JObj ?ps) ?st1 = (Throw TypeError, st2)"
    and r2: "recs st2 = recs st"
    by (cases "normalise h (JObj ?ps) ?st1") simp
  from k n r2
  show "fst (updateRecord h i u st) = Throw TypeError"
    and "recs (snd (updateRecord h i u st)) = recs st"
    by (simp_all add: updateRecord_def nowISO_def Let_def)
qed

theorem updateRecord_frame_witness:
  "\<not> (\<exists>r\<in>set (recs demo_store). strict_eq (rid r) (JStr (js ''zz'')))
   \<and> updateRecord demo_host (JStr (js ''zz'')) override_updates demo_store = (Return None, demo_store)
   \<and> (\<exists>r\<in>set (recs demo_store). strict_eq (rid r) (JStr (js ''b'')))
   \<and> list_all (\<lambda>r. truthy (rid r) \<and> truthy (createdAt r)) (recs demo_store)
   \<and> coercible override_updates
   \<and> (\<exists>r st'. updateRecord demo_host (JStr (js ''b'')) override_updates demo_store
                   = (Return (Some r), st')
         \<and> rid r = JStr (js ''b'')
         \<and> createdAt r = JStr (js ''2026-02-01T10:00:00.000Z'')
         \<and> updatedAt r = JStr (js ''1970-01-01T00:00:01.000Z'')
         \<and> recs st' = [demo_entry (js ''a''), r])
   \<and> \<not> coercible shadowing_updates
   \<and> fst (updateRecord demo_host (JStr (js ''b'')) shadowing_updates demo_store) = Throw TypeError
   \<and> recs (snd (updateRecord demo_host (JStr (js ''b'')) shadowing_updates demo_store))
       = recs demo_store"
proof -
  have absent: "\<forall>r\<in>set (recs demo_store). \<not> strict_eq (rid r) (JStr (js ''zz''))"
    by (simp add: demo_store_def demo_entry_def)
  have present: "\<exists>r\<in>set (recs demo_store). strict_eq (rid r) (JStr (js ''b''))"
    by (simp add: demo_store_def demo_entry_def)
  have pop: "\<forall>r\<in>set (recs demo_store). truthy (rid r) \<and> truthy (createdAt r)"
    by (simp add: demo_store_def demo_entry_def)
  have co: "coercible override_updates"
    by (simp add: override_updates_def coercible_def get_prop_def)
  have nco: "\<not> coercible shadowing_updates"
    by (simp add: shadowing_updates_def coercible_def get_prop_def)
  from updateRecord_frame[of demo_store "JStr (js ''zz'')" demo_host override_updates] absent
  have none: "updateRecord demo_host (JStr (js ''zz'')) override_updates demo_store
                = (Return None, demo_store)" by blast
  from updateRecord_frame[of demo_store "JStr (js ''b'')" demo_host override_updates]
       present pop co
  obtain k r st' where k: "k < length (recs demo_store)"
      "strict_eq (rid (recs demo_store ! k)) (JStr (js ''b''))"
    and u: "updateRecord demo_host (JStr (js ''b'')) override_updates demo_store
              = (Return (Some r), st')"
      "rid r = rid (recs demo_store ! k)" "createdAt r = createdAt (recs demo_store ! k)"
      "updatedAt r = JStr (toISOString (clock demo_host (ticks demo_store)))"
      "recs st' = (recs demo_store)[k := r]" by blast
  from k have "k = 1"
    by (cases k) (simp_all add: demo_store_def demo_entry_def)
  with u have v: "rid r = JStr (js ''b'')" "createdAt r = JStr (js ''2026-02-01T10:00:00.000Z'')"
      "updatedAt r = JStr (js ''1970-01-01T00:00:01.000Z'')"
      "recs st' = [demo_entry (js ''a''), r]"
    by (simp_all add: demo_store_def demo_entry_def demo_host_def iso_1000)
  from updateRecord_frame[of demo_store "JStr (js ''b'')" demo_host shadowing_updates]
       present nco
  have thr: "fst (updateRecord demo_host (JStr (js ''b'')) shadowing_updates demo_store)
               = Throw TypeError"
    "recs (snd (updateRecord demo_host (JStr (js ''b'')) shadowing_updates demo_store))
       = recs demo_store"
    by blast+
  from absent have ab: "\<not> (\<exists>r\<in>set (recs demo_store). strict_eq (rid r) (JStr (js ''zz'')))"
    by blast
  from pop have pl: "list_all (\<lambda>r. truthy (rid r) \<and> truthy (createdAt r)) (recs demo_store)"
    by (simp add: list_all_iff)
  from u(1) v have ex: "\<exists>r st'. updateRecord demo_host (JStr (js ''b'')) override_updates demo_store
                   = (Return (Some r), st')
         \<and> rid r = JStr (js ''b'')
         \<and> createdAt r = JStr (js ''2026-02-01T10:00:00.000Z'')
         \<and> updatedAt r = JStr (js ''1970-01-01T00:00:01.000Z'')
         \<and> recs st' = [demo_entry (js ''a''), r]" by blast
  from ab none present pl co ex nco thr show ?thesis by (intro conjI)
qed

text \<open>
  C6 as stated fails. Updates whose \<open>category\<close> is \<open>{"toString": null}\<close> make the call throw
  instead of returning the updated record. In a collection loaded from storage, a record
  without a creation time gets one from the clock when it is updated, and a record whose
  identifier is the empty string gets a generated identifier.
\<close>

theorem updateRecord_counterexample:
  "fst (updateRecord demo_host (JStr (js ''b'')) shadowing_updates demo_store) = Throw TypeError
   \<and> map createdAt (recs loaded_store) = [JNull, JStr (js ''2026-02-01T10:00:00.000Z'')]
   \<and> fst (updateRecord demo_host (JStr (js ''a'')) (JObj []) loaded_store)
       = Return (Some \<lparr>rid = JStr (js ''a''), description = js ''tea'', amount = Fin 5,
                        category = js ''Food'', date = JStr (js ''2026-02-01''),
                        createdAt = JStr (js ''1970-01-01T00:00:01.001Z''),
                        updatedAt = JStr (js ''1970-01-01T00:00:01.000Z'')\<rparr>)
   \<and> map rid (recs loaded_store) = [JStr (js ''a''), JStr []]
   \<and> fst (updateRecord demo_host (JStr []) (JObj []) loaded_store)
       = Return (Some \<lparr>rid = JStr (js ''rec_1001_3''), description = js ''tea'', amount = Fin 5,
                        category = js ''Food'', date = JStr (js ''2026-02-01''),
                        createdAt = JStr (js ''2026-02-01T10:00:00.000Z''),
                        updatedAt = JStr (js ''1970-01-01T00:00:01.000Z'')\<rparr>)"
proof (intro conjI)
  show "fst (updateRecord demo_host (JStr (js ''b'')) shadowing_updates demo_store)
          = Throw TypeError"
    unfolding updateRecord_def demo_store_def demo_entry_def shadowing_updates_def
    by (simp add: nowISO_def Let_def normalise_def get_prop_def or_else_def entry_props_def
        js_def)
  show "map createdAt (recs loaded_store) = [JNull, JStr (js ''2026-02-01T10:00:00.000Z'')]"
    by (simp add: loaded_store_def demo_entry_def)
  show "fst (updateRecord demo_host (JStr (js ''a'')) (JObj []) loaded_store)
       = Return (Some \<lparr>rid = JStr (js ''a''), description = js ''tea'', amount = Fin 5,
                        category = js ''Food'', date = JStr (js ''2026-02-01''),
                        createdAt = JStr (js ''1970-01-01T00:00:01.001Z''),
                        updatedAt = JStr (js ''1970-01-01T00:00:01.000Z'')\<rparr>)"
    unfolding updateRecord_def loaded_store_def demo_entry_def
    by (simp add: nowISO_def Let_def demo_host_def iso_1000 iso_1001 normalise_def get_prop_def
        or_else_def entry_props_def trim_def is_ws_def is_line_term_def js_def)
  show "map rid (recs loaded_store) = [JStr (js ''a''), JStr []]"
    by (simp add: loaded_store_def demo_entry_def)
  show "fst (updateRecord demo_host (JStr []) (JObj []) loaded_store)
       = Return (Some \<lparr>rid = JStr (js ''rec_1001_3''), description = js ''tea'', amount = Fin 5,
                        category = js ''Food'', date = JStr (js ''2026-02-01''),
                        createdAt = JStr (js ''2026-02-01T10:00:00.000Z''),
                        updatedAt = JStr (js ''1970-01-01T00:00:01.000Z'')\<rparr>)"
    unfolding updateRecord_def loaded_store_def demo_entry_def
    by (simp add: nowISO_def genId_def incr_def Let_def demo_host_def iso_1000 id_text_1001_3
        normalise_def get_prop_def or_else_def entry_props_def trim_def is_ws_def
        is_line_term_def js_def)
qed







section \<open>Properties of the matcher, the validator and the search\<close>

subsection \<open>The matcher moves forward\<close>

text \<open>The class \<open>\s\<close> is the white space that \<open>trim\<close> strips.\<close>

lemma is_ws_ranges_1: "is_ws c \<Longrightarrow> in_ranges ws_ranges c"
proof -
  assume "is_ws c"
  then consider "c = 9" | "c = 11" | "c = 12" | "c = 32" | "c = 160" | "c = 5760"
    | "8192 \<le> c \<and> c \<le> 8202" | "c = 8239" | "c = 8287" | "c = 12288" | "c = 65279"
    | "c = 10" | "c = 13" | "c = 8232" | "c = 8233"
    unfolding is_ws_def is_line_term_def by blast
  then show "in_ranges ws_ranges c"
    by cases (simp_all add: in_ranges_def ws_ranges_def)
qed

lemma is_ws_ranges_2: "in_ranges ws_ranges c \<Longrightarrow> is_ws c"
proof -
  assume "in_ranges ws_ranges c"
  then have "(9 \<le> c \<and> c \<le> 13) \<or> (32 \<le> c \<and> c \<le> 32) \<or> (160 \<le> c \<and> c \<le> 160)
     \<or> (5760 \<le> c \<and> c \<le> 5760) \<or> (8192 \<le> c \<and> c \<le> 8202) \<or> (8232 \<le> c \<and> c \<le> 8233)
     \<or> (8239 \<le> c \<and> c \<le> 8239) \<or> (8287 \<le> c \<and> c \<le> 8287)
     \<or> (12288 \<le> c \<and> c \<le> 12288) \<or> (65279 \<le> c \<and> c \<le> 65279)"
    by (simp add: in_ranges_def ws_ranges_def)
  then show "is_ws c"
  proof (elim disjE)
    assume "9 \<le> c \<and> c \<le> 13"
    then have "c = 9 \<or> c = 10 \<or> c = 11 \<or> c = 12 \<or> c = 13" by arith
    then show ?thesis unfolding is_ws_def is_line_term_def by blast
  next
    assume "8232 \<le> c \<and> c \<le> 8233"
    then have "c = 8232 \<or> c = 8233" by arith
    then show ?thesis unfolding is_ws_def is_line_term_def by blast
  qed (simp_all add: is_ws_def)
qed

text \<open>
  The matcher never moves backwards and never leaves the input. So the test \<open>j \<le> i\<close> of
  the quantifier is the test of ECMAScript for an iteration that consumed nothing, and its
  test \<open>length s < j\<close> never succeeds.
\<close>

lemma rx_run_forward:
  "x \<in> set (rx_run ic s r st) \<Longrightarrow> fst st \<le> length s \<Longrightarrow>
   fst st \<le> fst x \<and> fst x \<le> length s"
proof (induction ic s r st arbitrary: x rule: rx_run.induct)
  case (1 ic s st)
  then show ?case by simp
next
  case (2 ic s c i cs)
  then show ?case by (simp split: if_splits)
next
  case (3 ic s i cs)
  then show ?case by (simp split: if_splits)
next
  case (4 ic s neg rs i cs)
  then show ?case by (simp split: if_splits)
next
  case (5 ic s i cs)
  then show ?case by (simp split: if_splits)
next
  case (6 ic s i cs)
  then show ?case by (simp split: if_splits)
next
  case (7 ic s i cs)
  then show ?case by (simp split: if_splits)
next
  case (8 ic s a b st)
  from "8.prems"(1) obtain y where y: "y \<in> set (rx_run ic s a st)"
    and x: "x \<in> set (rx_run ic s b y)" by auto
  from "8.IH"(1)[OF y "8.prems"(2)] have sy: "fst st \<le> fst y" "fst y \<le> length s" by simp_all
  from "8.IH"(2)[OF y x sy(2)] sy show ?case by simp
next
  case (9 ic s a b st)
  from "9.prems"(1) have "x \<in> set (rx_run ic s a st) \<or> x \<in> set (rx_run ic s b st)" by simp
  then show ?case using "9.IH" "9.prems"(2) by blast
next
  case (10 ic s mn mx r i cs)
  show ?case
  proof (cases "mx = Some 0")
    case True
    with "10.prems" show ?thesis by (subst (asm) rx_run.simps(10)) simp
  next
    case False
    let ?next = "\<lambda>(j, cs'). if (mn = 0 \<and> j \<le> i) \<or> length s < j then []
                   else rx_run ic s (Rep (mn - 1) (map_option (\<lambda>m. m - 1) mx) r) (j, cs')"
    let ?first = "rx_run ic s r (i, clear_groups (groups_of r) cs)"
    define again where "again = concat (map ?next ?first)"
    have "rx_run ic s (Rep mn mx r) (i, cs) = (if mn = 0 then again @ [(i, cs)] else again)"
      unfolding again_def using False by (subst rx_run.simps(10)) (simp add: Let_def)
    with "10.prems"(1) have "x \<in> set (if mn = 0 then again @ [(i, cs)] else again)"
      by (simp only:)
    then have "x \<in> set again \<or> x = (i, cs)" by (auto split: if_splits)
    then show ?thesis
    proof
      assume "x = (i, cs)"
      with "10.prems"(2) show ?thesis by simp
    next
      assume "x \<in> set again"
      then have "x \<in> set (concat (map ?next ?first))" by (simp only: again_def)
      then obtain y where y: "y \<in> set ?first" and xn: "x \<in> set (?next y)" by auto
      obtain k ck where ye: "y = (k, ck)" by (cases y)
      from xn ye have g: "\<not> ((mn = 0 \<and> k \<le> i) \<or> length s < k)"
        and xr: "x \<in> set (rx_run ic s (Rep (mn - 1) (map_option (\<lambda>m. m - 1) mx) r) (k, ck))"
        by (simp_all split: if_splits)
      from "10.prems"(2) have il: "fst (i, clear_groups (groups_of r) cs) \<le> length s" by simp
      from "10.IH"(1)[OF False y il] ye have ik: "i \<le> k" "k \<le> length s" by simp_all
      from ik(2) have kl: "fst (k, ck) \<le> length s" by simp
      from "10.IH"(2)[OF False y ye[symmetric] g xr kl] ik show ?thesis by simp
    qed
  qed
next
  case (11 ic s n r i cs)
  from "11.prems"(1) obtain j c where y: "(j, c) \<in> set (rx_run ic s r (i, cs))"
    and x: "x = (j, c(n \<mapsto> (i, j)))" by auto
  from "11.IH"[OF y "11.prems"(2)] x show ?case by simp
next
  case (12 ic s n i cs)
  then show ?case by (auto split: option.splits if_splits)
next
  case (13 ic s r i cs)
  then show ?case by (auto split: list.splits)
qed

subsection \<open>Evaluation on concrete strings\<close>

lemmas rx_eval = validate_def patterns_def description_re_def amount_re_def amount_body_def
  date_re_def category_re_def duplicateWord_re_def nonZeroAmount_re_def
  regexp_test_def regexp_exec_def compile_def exec_from.simps rx_match_len_def
  rx_run.simps(10) js_def canon_def cls_found_def in_ranges_def ws_ranges_def word_ranges_def
  is_word_at_def advance_def clear_groups_def is_line_term_def

lemmas pf_eval = parseFloat_def Let_def strip_sign_def trimStart_def is_ws_def is_line_term_def
  is_digit_def exponent_of_def scale10_def digits_val_def is_zero_def js_def

lemma tea_tea_description: "validate (js ''description'') (js ''tea tea'')"
  by (simp add: rx_eval)

lemma tea_tea_duplicate: "validate (js ''duplicateWord'') (js ''tea tea'')"
  by (simp add: rx_eval)

lemma zero_amount_format: "validate (js ''amount'') (js ''0.00'')"
  by (simp add: rx_eval)

lemma zero_amount_is_zero: "is_zero (parseFloat (js ''0.00''))"
  by (simp add: pf_eval)

lemma feb_30_date: "validate (js ''date'') (js ''2026-02-30'')"
  by (simp add: rx_eval)

lemma food_delivery_category: "validate (js ''category'') (js ''Food-Delivery'')"
  by (simp add: rx_eval)

lemma space_food_category: "\<not> validate (js ''category'') (js '' Food'')"
  by (simp add: rx_eval)

lemma amount_1250_not_zero: "\<not> is_zero (parseFloat (js ''12.50''))"
  by (simp add: pf_eval)

lemma amount_1250_format: "validate (js ''amount'') (js ''12.50'')"
  by (simp add: rx_eval)

lemma tea_description: "validate (js ''description'') (js ''tea'')"
  by (simp add: rx_eval)

lemma tea_no_duplicate: "\<not> validate (js ''duplicateWord'') (js ''tea'')"
  by (simp add: rx_eval)

lemma food_category: "validate (js ''category'') (js ''Food'')"
  by (simp add: rx_eval)

lemma space_tea_description: "\<not> validate (js ''description'') (js '' tea'')"
  by (simp add: rx_eval)

lemma amount_1234_format: "\<not> validate (js ''amount'') (js ''1.234'')"
  by (simp add: rx_eval)

lemma month_13_date: "\<not> validate (js ''date'') (js ''2026-13-01'')"
  by (simp add: rx_eval)

subsection \<open>The amount patterns on arbitrary strings\<close>

lemma clear_groups_Nil [simp]: "clear_groups [] cs = cs"
  by (simp add: clear_groups_def)

lemma star_atom:
  assumes atom: "\<And>j cs. rx_run ic s r (j, cs)
                   = (if j < length s \<and> P (s ! j) then [(Suc j, cs)] else [])"
      and g: "groups_of r = []"
  shows "set (rx_run ic s (Rep 0 None r) (i, cs))
         = (\<lambda>j. (j, cs)) ` {i .. i + length (takeWhile P (drop i s))}"
proof (induction "length s - i" arbitrary: i)
  case 0
  then have "\<not> i < length s" by simp
  then show ?case
    by (subst rx_run.simps(10)) (simp add: atom g)
next
  case (Suc n)
  then have i: "i < length s" and n: "n = length s - Suc i" by simp_all
  have d: "drop i s = s ! i # drop (Suc i) s" using i by (simp add: Cons_nth_drop_Suc)
  show ?case
  proof (cases "P (s ! i)")
    case True
    let ?m = "length (takeWhile P (drop (Suc i) s))"
    have "rx_run ic s (Rep 0 None r) (i, cs) = rx_run ic s (Rep 0 None r) (Suc i, cs) @ [(i, cs)]"
      using i True by (subst rx_run.simps(10)) (simp add: atom g)
    then have "set (rx_run ic s (Rep 0 None r) (i, cs))
                 = insert (i, cs) ((\<lambda>j. (j, cs)) ` {Suc i .. Suc i + ?m})"
      using Suc.hyps(1)[OF n] by simp
    also have "\<dots> = (\<lambda>j. (j, cs)) ` insert i {Suc i .. Suc i + ?m}" by simp
    also have "insert i {Suc i .. Suc i + ?m} = {i .. i + Suc ?m}" by auto
    finally show ?thesis using True by (simp add: d)
  next
    case False
    show ?thesis
      using False by (subst rx_run.simps(10)) (simp add: atom g d)
  qed
qed

lemma exec_from_none:
  "(\<And>i. k \<le> i \<Longrightarrow> match_len re s i = None) \<Longrightarrow> exec_from re s k = None"
proof (induction re s k rule: exec_from.induct)
  case (1 re s k)
  show ?case
  proof (cases "length s < k \<or> sticky re")
    case True
    then show ?thesis using "1.prems"[of k] by (subst exec_from.simps) auto
  next
    case False
    have m: "match_len re s k = None" using "1.prems"[of k] by simp
    have "exec_from re s (advance (unicode re) s k) = None"
    proof (rule "1.IH")
      show "\<not> length s < k" using False by simp
      show "match_len re s k = None" by (rule m)
      show "\<not> sticky re" using False by simp
      fix i assume "advance (unicode re) s k \<le> i"
      then have "k \<le> i" by (auto simp: advance_def split: if_splits)
      then show "match_len re s i = None" by (rule "1.prems")
    qed
    with False m show ?thesis by (subst exec_from.simps) simp
  qed
qed

text \<open>A pattern that starts with \<open>^\<close> is tested at index 0 only.\<close>

lemma test_anchored:
  "fst (regexp_test (compile ic (Seq Bol r)) s) \<longleftrightarrow> rx_run ic s r (0, Map.empty) \<noteq> []"
proof -
  let ?re = "compile ic (Seq Bol r)"
  have later: "\<And>i. 1 \<le> i \<Longrightarrow> match_len ?re s i = None"
    by (simp add: compile_def rx_match_len_def)
  have m0: "match_len ?re s 0 = (case rx_run ic s r (0, Map.empty) of [] \<Rightarrow> None
                                  | (j, cs) # rest \<Rightarrow> Some j)"
    by (simp add: compile_def rx_match_len_def split: list.splits)
  have adv: "advance (unicode ?re) s 0 = 1" by (simp add: compile_def advance_def)
  have ns: "\<not> sticky ?re" "\<not> global ?re" by (simp_all add: compile_def)
  show ?thesis
  proof (cases "rx_run ic s r (0, Map.empty)")
    case Nil
    then have "match_len ?re s 0 = None" using m0 by simp
    moreover have "exec_from ?re s 1 = None" by (rule exec_from_none) (rule later)
    ultimately have "exec_from ?re s 0 = None"
      using ns adv by (subst exec_from.simps) simp
    then show ?thesis using Nil ns by (simp add: regexp_test_def regexp_exec_def)
  next
    case (Cons x xs)
    then obtain j where "match_len ?re s 0 = Some j" using m0 by (cases x) simp
    then have "exec_from ?re s 0 = Some (0, j)" by (subst exec_from.simps) simp
    then show ?thesis using Cons ns by (simp add: regexp_test_def regexp_exec_def)
  qed
qed

lemma validate_amount:
  "validate (js ''amount'') s \<longleftrightarrow> rx_run False s amount_body (0, Map.empty) \<noteq> []"
  by (simp add: validate_def patterns_def amount_re_def test_anchored)

lemma validate_nonZeroAmount:
  "validate (js ''nonZeroAmount'') s \<longleftrightarrow>
     rx_run False s (Seq (Look (Seq (Star Dot) (Cls False [(49, 57)]))) amount_body) (0, Map.empty) \<noteq> []"
  by (simp add: validate_def patterns_def nonZeroAmount_re_def test_anchored)

lemma digit_atom:
  "rx_run False s Digit (j, cs) = (if j < length s \<and> is_digit (s ! j) then [(Suc j, cs)] else [])"
  by (auto simp: cls_found_def in_ranges_def is_digit_def)

lemma dot_atom:
  "rx_run ic s Dot (j, cs)
     = (if j < length s \<and> \<not> is_line_term (s ! j) then [(Suc j, cs)] else [])"
  by simp

lemma takeWhile_nth_holds: "k < length (takeWhile P xs) \<Longrightarrow> P (xs ! k)"
  by (metis nth_mem set_takeWhileD takeWhile_nth)

text \<open>The integer part: at least one character, all of them digits.\<close>

lemma amount_integer_part:
  assumes "(j, c) \<in> set (rx_run False s
              (Grp 1 (Alt (Chr 48) (Seq (Cls False [(49, 57)]) (Star Digit)))) (0, cs))"
  shows "0 < j \<and> j \<le> length s \<and> (\<forall>k<j. is_digit (s ! k))"
proof -
  from assms obtain c' where
    "(j, c') \<in> set (rx_run False s (Chr 48) (0, cs))
     \<or> (j, c') \<in> set (rx_run False s (Seq (Cls False [(49, 57)]) (Star Digit)) (0, cs))"
    by auto
  then show ?thesis
  proof
    assume "(j, c') \<in> set (rx_run False s (Chr 48) (0, cs))"
    then show ?thesis
      by (cases s) (auto simp: canon_def is_digit_def split: if_splits)
  next
    assume a: "(j, c') \<in> set (rx_run False s (Seq (Cls False [(49, 57)]) (Star Digit)) (0, cs))"
    let ?n = "length (takeWhile is_digit (drop 1 s))"
    from a have s0: "0 < length s" "49 \<le> s ! 0" "s ! 0 \<le> 57"
      and j: "(j, c') \<in> set (rx_run False s (Star Digit) (Suc 0, cs))"
      by (auto simp: cls_found_def in_ranges_def split: if_splits)
    from j star_atom[of False s Digit is_digit "Suc 0" cs, OF digit_atom]
    have jr: "1 \<le> j" "j \<le> 1 + ?n" by auto
    have nl: "?n \<le> length (drop 1 s)" by (rule length_takeWhile_le)
    have dl: "length (drop 1 s) = length s - 1" by simp
    from jr(2) nl dl s0(1) have jl: "j \<le> length s" by arith
    have "is_digit (s ! k)" if "k < j" for k
    proof (cases k)
      case 0
      with s0 show ?thesis by (simp add: is_digit_def)
    next
      case (Suc k')
      with that jr have k': "k' < ?n" by simp
      from takeWhile_nth_holds[OF k'] have "is_digit (drop 1 s ! k')" .
      moreover have "Suc k' < length s" using k' nl dl by arith
      ultimately show ?thesis using Suc by simp
    qed
    with jr jl show ?thesis by simp
  qed
qed

text \<open>The optional fraction: nothing, or a point and one or two digits.\<close>

lemma amount_fraction_part:
  assumes "(j2, c2) \<in> set (rx_run False s
              (Opt (Grp 2 (Seq (Chr 46) (Rep 1 (Some 2) Digit)))) (j1, c1))"
  shows "j2 = j1
       \<or> (Suc j1 < length s \<and> s ! j1 = 46 \<and> is_digit (s ! Suc j1)
           \<and> (j2 = j1 + 2 \<or> (j2 = j1 + 3 \<and> j1 + 2 < length s \<and> is_digit (s ! (j1 + 2)))))"
  using assms
  by (auto simp: rx_run.simps(10) canon_def cls_found_def in_ranges_def is_digit_def Let_def
      split: if_splits)

text \<open>
  The shape of a string the amount pattern accepts: digits, then nothing or a point and
  one or two digits.
\<close>

lemma seq_nonempty:
  "rx_run ic s (Seq a b) st \<noteq> [] \<longleftrightarrow> (\<exists>x\<in>set (rx_run ic s a st). rx_run ic s b x \<noteq> [])"
  by simp

lemma amount_shape:
  assumes "rx_run False s amount_body (0, cs) \<noteq> []"
  shows "\<exists>ip ds. s = ip @ (if ds = [] then [] else 46 # ds) \<and> ip \<noteq> []
            \<and> (\<forall>c\<in>set ip. is_digit c) \<and> (\<forall>c\<in>set ds. is_digit c) \<and> length ds \<le> 2"
proof -
  let ?G1 = "Grp 1 (Alt (Chr 48) (Seq (Cls False [(49, 57)]) (Star Digit)))"
  let ?G2 = "Opt (Grp 2 (Seq (Chr 46) (Rep 1 (Some 2) Digit)))"
  from assms have "\<exists>x\<in>set (rx_run False s ?G1 (0, cs)).
                     \<exists>y\<in>set (rx_run False s ?G2 x). rx_run False s Eol y \<noteq> []"
    unfolding amount_body_def Seqs.simps seq_nonempty .
  then obtain x y where x: "x \<in> set (rx_run False s ?G1 (0, cs))"
    and y: "y \<in> set (rx_run False s ?G2 x)" and e: "rx_run False s Eol y \<noteq> []"
    by blast
  obtain j1 c1 where xe: "x = (j1, c1)" by (cases x)
  obtain j2 c2 where ye: "y = (j2, c2)" by (cases y)
  from e ye have j2: "j2 = length s" by (simp split: if_splits)
  from amount_integer_part[OF x[unfolded xe]]
  have j1: "0 < j1" "j1 \<le> length s" and dg: "\<forall>k<j1. is_digit (s ! k)" by simp_all
  have ipd: "\<forall>c\<in>set (take j1 s). is_digit c"
  proof
    fix c assume "c \<in> set (take j1 s)"
    then obtain k where "k < length (take j1 s)" "take j1 s ! k = c"
      by (auto simp: in_set_conv_nth)
    with dg show "is_digit c" by auto
  qed
  have ipn: "take j1 s \<noteq> []" using j1 by auto
  from amount_fraction_part[OF y[unfolded xe ye]]
  consider (none) "j2 = j1"
    | (one) "Suc j1 < length s" "s ! j1 = 46" "is_digit (s ! Suc j1)" "j2 = j1 + 2"
    | (two) "Suc j1 < length s" "s ! j1 = 46" "is_digit (s ! Suc j1)" "j2 = j1 + 3"
            "j1 + 2 < length s" "is_digit (s ! (j1 + 2))"
    by auto
  then show ?thesis
  proof cases
    case none
    with j2 have "s = take j1 s @ (if [] = [] then [] else 46 # [])" by simp
    with ipd ipn show ?thesis
      by (intro exI[of _ "take j1 s"] exI[of _ "[]"]) simp
  next
    case one
    from one j2 have "drop j1 s = [46, s ! Suc j1]"
      by (simp add: Cons_nth_drop_Suc[symmetric])
    then have "s = take j1 s @ [46, s ! Suc j1]" by (metis append_take_drop_id)
    with ipd ipn one show ?thesis
      by (intro exI[of _ "take j1 s"] exI[of _ "[s ! Suc j1]"]) simp
  next
    case two
    from two j2 have "drop j1 s = [46, s ! Suc j1, s ! (j1 + 2)]"
      by (simp add: Cons_nth_drop_Suc[symmetric] numeral_3_eq_3)
    then have "s = take j1 s @ [46, s ! Suc j1, s ! (j1 + 2)]" by (metis append_take_drop_id)
    with ipd ipn two show ?thesis
      by (intro exI[of _ "take j1 s"] exI[of _ "[s ! Suc j1, s ! (j1 + 2)]"]) simp
  qed
qed

lemma digit_not_ws: "is_digit c \<Longrightarrow> \<not> is_ws c"
  by (auto simp: is_digit_def is_ws_def is_line_term_def)

lemma digit_not_line_term: "is_digit c \<Longrightarrow> \<not> is_line_term c"
  by (auto simp: is_digit_def is_line_term_def)

lemma foldl_digits_zero:
  "(\<forall>c\<in>set ds. is_digit c) \<Longrightarrow>
   foldl (\<lambda>a c. 10 * a + (c - 48)) a0 ds = (0::nat) \<longleftrightarrow> a0 = 0 \<and> (\<forall>c\<in>set ds. c = 48)"
  by (induction ds arbitrary: a0) (auto simp: is_digit_def)

lemma digits_val_zero:
  "(\<forall>c\<in>set ds. is_digit c) \<Longrightarrow> digits_val ds = 0 \<longleftrightarrow> (\<forall>c\<in>set ds. c = 48)"
  by (simp add: digits_val_def foldl_digits_zero)

text \<open>What \<open>parseFloat\<close> reads from a string of that shape.\<close>

lemma parseFloat_amount:
  assumes ip: "ip \<noteq> []" "\<forall>c\<in>set ip. is_digit c" and ds: "\<forall>c\<in>set ds. is_digit c"
  shows "parseFloat (ip @ (if ds = [] then [] else 46 # ds))
         = PF_Val (of_nat (digits_val ip) + of_nat (digits_val ds) / 10 ^ length ds)"
proof -
  let ?s = "ip @ (if ds = [] then [] else 46 # ds)"
  obtain d rest where ipc: "ip = d # rest" using ip(1) by (cases ip) auto
  with ip(2) have d: "is_digit d" by simp
  have t: "trimStart ?s = ?s"
    using d by (simp add: trimStart_def ipc digit_not_ws)
  have sg: "strip_sign ?s = (False, ?s)"
    using d by (simp add: strip_sign_def ipc is_digit_def)
  have inf: "take 8 ?s \<noteq> js ''Infinity''"
    using d by (auto simp: ipc js_def is_digit_def)
  have nd: "\<not> is_digit 46" by (simp add: is_digit_def)
  have tw: "takeWhile is_digit ?s = ip"
    using ip(2) nd by (simp add: takeWhile_append2)
  have dw: "dropWhile is_digit ?s = (if ds = [] then [] else 46 # ds)"
    using ip(2) nd by (simp add: dropWhile_append2)
  have twd: "takeWhile is_digit ds = ds" using ds by (simp add: takeWhile_eq_all_conv)
  have dwd: "dropWhile is_digit ds = []" using ds by simp
  show ?thesis
    unfolding parseFloat_def t sg
    using inf ip(1) by (simp add: Let_def tw dw twd dwd exponent_of_def scale10_def digits_val_def)
qed

lemma is_zero_amount:
  fixes a b :: nat
  assumes "k \<le> 2"
  shows "is_zero (PF_Val (of_nat a + of_nat b / 10 ^ k)) \<longleftrightarrow> a = 0 \<and> b = 0"
proof
  assume "a = 0 \<and> b = 0"
  then show "is_zero (PF_Val (of_nat a + of_nat b / 10 ^ k))" by (simp add: is_zero_def)
next
  assume z: "is_zero (PF_Val (of_nat a + of_nat b / 10 ^ k))"
  let ?q = "(of_nat a + of_nat b / 10 ^ k) :: rat"
  have small: "(1::rat) / 2 ^ 1075 < 1 / 100"
    by (rule divide_strict_left_mono) simp_all
  have nn: "(0::rat) \<le> of_nat b / 10 ^ k" by simp
  from z have le: "?q \<le> 1 / 2 ^ 1075" by (simp add: is_zero_def abs_le_iff)
  have a0: "a = 0"
  proof (rule ccontr)
    assume "a \<noteq> 0"
    then have "(1::rat) \<le> of_nat a" by simp
    with nn have "(1::rat) \<le> ?q" by linarith
    with le small show False by linarith
  qed
  have b0: "b = 0"
  proof (rule ccontr)
    assume "b \<noteq> 0"
    then have b1: "(1::rat) \<le> of_nat b" by simp
    have "(10::rat) ^ k \<le> 10 ^ 2" using assms by (intro power_increasing) simp_all
    then have k100: "(10::rat) ^ k \<le> 100" by simp
    have "(1::rat) / 100 \<le> 1 / 10 ^ k"
      using k100 by (intro divide_left_mono) simp_all
    also have "\<dots> \<le> of_nat b / 10 ^ k"
      using b1 by (intro divide_right_mono) simp_all
    finally have "(1::rat) / 100 \<le> ?q" using a0 by simp
    with le small show False by linarith
  qed
  from a0 b0 show "a = 0 \<and> b = 0" ..
qed

text \<open>
  The lookahead \<open>(?=.*[1-9])\<close> at index 0 of a string without line terminators: it succeeds
  exactly when the string has a character from 1 to 9, and leaves the state as it was.
\<close>

lemma lookahead_nonzero_digit:
  assumes "\<forall>c\<in>set s. \<not> is_line_term c"
  shows "rx_run False s (Look (Seq (Star Dot) (Cls False [(49, 57)]))) (0, cs)
         = (if \<exists>c\<in>set s. 49 \<le> c \<and> c \<le> 57 then [(0, cs)] else [])"
proof -
  let ?C = "Cls False [(49, 57)]"
  let ?R = "rx_run False s (Seq (Star Dot) ?C) (0, cs)"
  have tw: "takeWhile (\<lambda>c. \<not> is_line_term c) s = s"
    using assms by (simp add: takeWhile_eq_all_conv)
  have star: "set (rx_run False s (Star Dot) (0, cs)) = (\<lambda>j. (j, cs)) ` {0 .. length s}"
    using star_atom[of False s Dot "\<lambda>c. \<not> is_line_term c" 0 cs, OF dot_atom]
    by (simp add: tw)
  have C: "\<And>j. rx_run False s ?C (j, cs)
            = (if j < length s \<and> 49 \<le> s ! j \<and> s ! j \<le> 57 then [(Suc j, cs)] else [])"
    by (auto simp: cls_found_def in_ranges_def)
  have setR: "set ?R = {(Suc j, cs) | j. j < length s \<and> 49 \<le> s ! j \<and> s ! j \<le> 57}"
  proof -
    have "set ?R = (\<Union>x\<in>set (rx_run False s (Star Dot) (0, cs)). set (rx_run False s ?C x))"
      by (simp del: rx_run.simps(4))
    also have "\<dots> = (\<Union>j\<in>{0 .. length s}. set (rx_run False s ?C (j, cs)))"
      by (simp only: star UN_simps image_image)
    also have "\<dots> = {(Suc j, cs) | j. j < length s \<and> 49 \<le> s ! j \<and> s ! j \<le> 57}"
      unfolding C by (auto split: if_splits)
    finally show ?thesis .
  qed
  have ex: "(\<exists>j. j < length s \<and> 49 \<le> s ! j \<and> s ! j \<le> 57) \<longleftrightarrow> (\<exists>c\<in>set s. 49 \<le> c \<and> c \<le> 57)"
  proof
    assume "\<exists>j. j < length s \<and> 49 \<le> s ! j \<and> s ! j \<le> 57"
    then obtain j where "j < length s" "49 \<le> s ! j" "s ! j \<le> 57" by blast
    with nth_mem[of j s] show "\<exists>c\<in>set s. 49 \<le> c \<and> c \<le> 57" by blast
  next
    assume "\<exists>c\<in>set s. 49 \<le> c \<and> c \<le> 57"
    then show "\<exists>j. j < length s \<and> 49 \<le> s ! j \<and> s ! j \<le> 57"
      by (auto simp: in_set_conv_nth)
  qed
  show ?thesis
  proof (cases ?R)
    case Nil
    then have "set ?R = {}" by simp
    with setR ex have "\<not> (\<exists>c\<in>set s. 49 \<le> c \<and> c \<le> 57)" by auto
    with Nil show ?thesis by (simp del: rx_run.simps(8))
  next
    case (Cons x xs)
    then have "x \<in> set ?R" by simp
    with setR obtain j where "x = (Suc j, cs)" "j < length s" "49 \<le> s ! j" "s ! j \<le> 57"
      by auto
    moreover from this have "\<exists>c\<in>set s. 49 \<le> c \<and> c \<le> 57"
      using nth_mem[of j s] by blast
    ultimately show ?thesis using Cons by (simp del: rx_run.simps(8))
  qed
qed

lemma nonzero_digit_iff:
  assumes "\<forall>c\<in>set xs. is_digit c"
  shows "(\<exists>c\<in>set xs. 49 \<le> c \<and> c \<le> 57) \<longleftrightarrow> \<not> (\<forall>c\<in>set xs. c = 48)"
proof
  assume "\<exists>c\<in>set xs. 49 \<le> c \<and> c \<le> 57"
  then obtain c where "c \<in> set xs" "49 \<le> c" by blast
  then have "c \<in> set xs" "c \<noteq> 48" by simp_all
  then show "\<not> (\<forall>c\<in>set xs. c = 48)" by blast
next
  assume "\<not> (\<forall>c\<in>set xs. c = 48)"
  then obtain c where c: "c \<in> set xs" "c \<noteq> 48" by blast
  with assms have "is_digit c" by blast
  with c(2) have "49 \<le> c \<and> c \<le> 57" by (simp add: is_digit_def)
  with c(1) show "\<exists>c\<in>set xs. 49 \<le> c \<and> c \<le> 57" by blast
qed

lemma nonZeroAmount_iff:
  assumes "validate (js ''amount'') s"
  shows "validate (js ''nonZeroAmount'') s \<longleftrightarrow> \<not> is_zero (parseFloat s)"
proof -
  from assms have run: "rx_run False s amount_body (0, Map.empty) \<noteq> []"
    by (simp add: validate_amount)
  from amount_shape[OF run] obtain ip ds where
    s: "s = ip @ (if ds = [] then [] else 46 # ds)" and ipn: "ip \<noteq> []"
    and ipd: "\<forall>c\<in>set ip. is_digit c" and dsd: "\<forall>c\<in>set ds. is_digit c"
    and len: "length ds \<le> 2" by blast
  have chars: "set s = set ip \<union> (if ds = [] then {} else insert 46 (set ds))"
    by (subst s) simp
  have nlt: "\<forall>c\<in>set s. \<not> is_line_term c"
  proof
    fix c assume "c \<in> set s"
    then have "is_digit c \<or> c = 46" using ipd dsd by (auto simp: chars split: if_splits)
    then show "\<not> is_line_term c"
      by (auto simp: is_digit_def is_line_term_def)
  qed
  have "validate (js ''nonZeroAmount'') s \<longleftrightarrow> (\<exists>c\<in>set s. 49 \<le> c \<and> c \<le> 57)"
    unfolding validate_nonZeroAmount seq_nonempty lookahead_nonzero_digit[OF nlt]
    using run by simp
  also have "\<dots> \<longleftrightarrow> (\<exists>c\<in>set ip. 49 \<le> c \<and> c \<le> 57) \<or> (\<exists>c\<in>set ds. 49 \<le> c \<and> c \<le> 57)"
    by (auto simp: chars split: if_splits)
  also have "\<dots> \<longleftrightarrow> \<not> ((\<forall>c\<in>set ip. c = 48) \<and> (\<forall>c\<in>set ds. c = 48))"
    by (simp only: nonzero_digit_iff[OF ipd] nonzero_digit_iff[OF dsd] de_Morgan_conj)
  also have "\<dots> \<longleftrightarrow> \<not> (digits_val ip = 0 \<and> digits_val ds = 0)"
    by (simp add: digits_val_zero[OF ipd] digits_val_zero[OF dsd])
  also have "\<dots> \<longleftrightarrow> \<not> is_zero (PF_Val (of_nat (digits_val ip) + of_nat (digits_val ds) / 10 ^ length ds))"
    by (simp only: is_zero_amount[OF len])
  also have "\<dots> \<longleftrightarrow> \<not> is_zero (parseFloat s)"
    by (subst s) (simp only: parseFloat_amount[OF ipn ipd dsd])
  finally show ?thesis .
qed

subsection \<open>Statistics of the empty collection\<close>

lemma foldl_add_zeros: "foldl (\<lambda>s v. num_add h s v) (Fin 0) (replicate n (Fin 0)) = Fin 0"
  by (induction n) simp_all

lemma foldl_count_zeros:
  "foldl (\<lambda>s v. s + (if num_positive v then 1 else 0)) (0::nat) (replicate n (Fin 0)) = 0"
  by (induction n) simp_all

subsection \<open>The claims on search and validation\<close>

lemma trim_empty_iff: "trim s = [] \<longleftrightarrow> (\<forall>c\<in>set s. is_ws c)"
proof -
  have "trim s = [] \<longleftrightarrow> (\<forall>c\<in>set (dropWhile is_ws s). is_ws c)"
    by (simp add: trim_def dropWhile_eq_Nil_conv)
  also have "\<dots> \<longleftrightarrow> dropWhile is_ws s = []"
  proof
    assume a: "\<forall>c\<in>set (dropWhile is_ws s). is_ws c"
    show "dropWhile is_ws s = []"
    proof (rule ccontr)
      assume n: "dropWhile is_ws s \<noteq> []"
      then have "\<not> is_ws (hd (dropWhile is_ws s))" by (rule hd_dropWhile)
      moreover have "hd (dropWhile is_ws s) \<in> set (dropWhile is_ws s)" using n by simp
      ultimately show False using a by blast
    qed
  next
    assume e: "dropWhile is_ws s = []"
    show "\<forall>c\<in>set (dropWhile is_ws s). is_ws c" unfolding e by simp
  qed
  also have "\<dots> \<longleftrightarrow> (\<forall>c\<in>set s. is_ws c)" by (simp add: dropWhile_eq_Nil_conv)
  finally show ?thesis .
qed

text \<open>
  C3. \<open>compileRegex\<close> returns for every input string, whatever the constructor does: an
  empty or white-space-only input gives no matcher, and so does a pattern on which the
  constructor throws. \<open>filterRecords\<close> without a matcher returns the list it was given.
\<close>

theorem compileRegex_never_throws:
  "(\<exists>m. compileRegex RegExp_new input flags = Return m)
   \<and> ((\<forall>c\<in>set input. is_ws c) \<longrightarrow> compileRegex RegExp_new input flags = Return None)
   \<and> ((\<exists>e. RegExp_new (trim input) flags = Throw e) \<longrightarrow>
        compileRegex RegExp_new input flags = Return None)
   \<and> filterRecords h records None = (Return records, None)"
  by (cases "RegExp_new (trim input) flags")
     (auto simp: compileRegex_def filterRecords_def trim_empty_iff)

theorem compileRegex_never_throws_witness:
  "compileRegex demo_RegExp (js '''') (js ''i'') = Return None
   \<and> compileRegex demo_RegExp (js ''  '') (js ''i'') = Return None
   \<and> demo_RegExp (trim (js ''('')) (js ''i'') = Throw SyntaxError
   \<and> compileRegex demo_RegExp (js ''('') (js ''i'') = Return None
   \<and> compileRegex demo_RegExp (js '' tea '') (js ''i'') = Return (Some tea_i)
   \<and> filterRecords demo_host (recs demo_store) None = (Return (recs demo_store), None)"
proof -
  have ws: "\<forall>c\<in>set (js ''''). is_ws c" "\<forall>c\<in>set (js ''  ''). is_ws c"
    by (simp_all add: js_def is_ws_def)
  have t: "trim (js ''('') = js ''(''" "trim (js '' tea '') = js ''tea''"
    by (simp_all add: trim_def js_def is_ws_def is_line_term_def)
  have thr: "demo_RegExp (trim (js ''('')) (js ''i'') = Throw SyntaxError"
    by (simp add: t demo_RegExp_def)
  have tea: "compileRegex demo_RegExp (js '' tea '') (js ''i'') = Return (Some tea_i)"
    by (simp add: compileRegex_def t demo_RegExp_def)
  from compileRegex_never_throws[of demo_RegExp "js ''''" "js ''i''" demo_host "recs demo_store"]
       compileRegex_never_throws[of demo_RegExp "js ''  ''" "js ''i''" demo_host "recs demo_store"]
       compileRegex_never_throws[of demo_RegExp "js ''(''" "js ''i''" demo_host "recs demo_store"]
       ws thr tea
  show ?thesis by blast
qed

text \<open>
  C1 fails on the code. \<open>compileRegex\<close> passes the flags \<open>'i'\<close>, without \<open>g\<close>, and
  \<open>String.prototype.replace\<close> with a RegExp that is not global replaces the first match
  only: in \<open>tea tea\<close> the second occurrence of \<open>tea\<close> is left unmarked.
\<close>

theorem highlight_first_match_only:
  "compileRegex demo_RegExp (js ''tea'') (js ''i'') = Return (Some tea_i)
   \<and> fst (highlight (js ''tea tea'') (Some tea_i))
       = js ''<mark class=\"search-hit\">tea</mark> tea''"
proof -
  have c: "compileRegex demo_RegExp (js ''tea'') (js ''i'') = Return (Some tea_i)"
    by (simp add: compileRegex_def demo_RegExp_def trim_def js_def is_ws_def is_line_term_def)
  have m: "match_len tea_i (js ''tea tea'') 0 = Some 3"
    by (simp add: tea_i_def compile_def rx_match_len_def canon_def js_def)
  have g: "\<not> global tea_i" "\<not> sticky tea_i" by (simp_all add: tea_i_def compile_def)
  have "exec_from tea_i (js ''tea tea'') 0 = Some (0, 3)"
    by (subst exec_from.simps) (simp add: m)
  then have "regexp_exec tea_i (js ''tea tea'') = (Some (0, 3), tea_i)"
    using g by (simp add: regexp_exec_def)
  then have "fst (highlight (js ''tea tea'') (Some tea_i))
               = js ''<mark class=\"search-hit\">tea</mark> tea''"
    using g by (simp add: highlight_def regexp_replace_def mark_def js_def)
  with c show ?thesis by simp
qed

text \<open>
  C4. \<open>validateForm\<close> reports the first rule that fails, in the order description, amount
  format, amount greater than zero, category, date, repeated word, and returns \<open>null\<close> when
  none fails. \<open>tea tea\<close> passes the description rule and has a repeated word, so that it
  fails with the repeated-word message when the other fields pass; \<open>0.00\<close> has the amount
  format and parses to zero, so that it fails with the greater-than-zero message when the
  description passes; \<open>2026-02-30\<close> passes the date rule, \<open>Food-Delivery\<close> passes the
  category rule, and \<open>Food\<close> after a space does not.
\<close>

theorem validateForm_first_failure:
  "(\<not> validate (js ''description'') d \<longrightarrow> validateForm d a c t = Some err_description)
   \<and> (validate (js ''description'') d \<and> \<not> validate (js ''amount'') a \<longrightarrow>
        validateForm d a c t = Some err_amount)
   \<and> (validate (js ''description'') d \<and> validate (js ''amount'') a \<and> is_zero (parseFloat a) \<longrightarrow>
        validateForm d a c t = Some err_zero)
   \<and> (validate (js ''description'') d \<and> validate (js ''amount'') a \<and> \<not> is_zero (parseFloat a)
        \<and> \<not> validate (js ''category'') c \<longrightarrow>
        validateForm d a c t = Some err_category)
   \<and> (validate (js ''description'') d \<and> validate (js ''amount'') a \<and> \<not> is_zero (parseFloat a)
        \<and> validate (js ''category'') c \<and> \<not> validate (js ''date'') t \<longrightarrow>
        validateForm d a c t = Some err_date)
   \<and> (validate (js ''description'') d \<and> validate (js ''amount'') a \<and> \<not> is_zero (parseFloat a)
        \<and> validate (js ''category'') c \<and> validate (js ''date'') t
        \<and> validate (js ''duplicateWord'') d \<longrightarrow>
        validateForm d a c t = Some err_duplicate)
   \<and> (validate (js ''description'') d \<and> validate (js ''amount'') a \<and> \<not> is_zero (parseFloat a)
        \<and> validate (js ''category'') c \<and> validate (js ''date'') t
        \<and> \<not> validate (js ''duplicateWord'') d \<longrightarrow>
        validateForm d a c t = None)
   \<and> (validate (js ''amount'') a \<and> \<not> is_zero (parseFloat a)
        \<and> validate (js ''category'') c \<and> validate (js ''date'') t \<longrightarrow>
        validateForm (js ''tea tea'') a c t = Some err_duplicate)
   \<and> (validate (js ''description'') d \<longrightarrow> validateForm d (js ''0.00'') c t = Some err_zero)
   \<and> validate (js ''date'') (js ''2026-02-30'')
   \<and> validate (js ''category'') (js ''Food-Delivery'')
   \<and> \<not> validate (js ''category'') (js '' Food'')"
  using tea_tea_description tea_tea_duplicate zero_amount_format zero_amount_is_zero
    feb_30_date food_delivery_category space_food_category
  by (simp add: validateForm_def)

theorem validateForm_first_failure_witness:
  "validateForm (js '' tea'') (js ''12.50'') (js ''Food'') (js ''2026-02-30'') = Some err_description
   \<and> validateForm (js ''tea'') (js ''1.234'') (js ''Food'') (js ''2026-02-30'') = Some err_amount
   \<and> validateForm (js ''tea'') (js ''0.00'') (js ''Food'') (js ''2026-02-30'') = Some err_zero
   \<and> validateForm (js ''tea'') (js ''12.50'') (js '' Food'') (js ''2026-02-30'') = Some err_category
   \<and> validateForm (js ''tea'') (js ''12.50'') (js ''Food'') (js ''2026-13-01'') = Some err_date
   \<and> validateForm (js ''tea tea'') (js ''12.50'') (js ''Food'') (js ''2026-02-30'') = Some err_duplicate
   \<and> validateForm (js ''tea'') (js ''12.50'') (js ''Food-Delivery'') (js ''2026-02-30'') = None"
proof (intro conjI)
  show "validateForm (js '' tea'') (js ''12.50'') (js ''Food'') (js ''2026-02-30'') = Some err_description"
    using validateForm_first_failure[of "js '' tea''" "js ''12.50''" "js ''Food''" "js ''2026-02-30''"]
      space_tea_description by blast
  show "validateForm (js ''tea'') (js ''1.234'') (js ''Food'') (js ''2026-02-30'') = Some err_amount"
    using validateForm_first_failure[of "js ''tea''" "js ''1.234''" "js ''Food''" "js ''2026-02-30''"]
      tea_description amount_1234_format by blast
  show "validateForm (js ''tea'') (js ''0.00'') (js ''Food'') (js ''2026-02-30'') = Some err_zero"
    using validateForm_first_failure[of "js ''tea''" "js ''0.00''" "js ''Food''" "js ''2026-02-30''"]
      tea_description zero_amount_format zero_amount_is_zero by blast
  show "validateForm (js ''tea'') (js ''12.50'') (js '' Food'') (js ''2026-02-30'') = Some err_category"
    using validateForm_first_failure[of "js ''tea''" "js ''12.50''" "js '' Food''" "js ''2026-02-30''"]
      tea_description amount_1250_format amount_1250_not_zero space_food_category by blast
  show "validateForm (js ''tea'') (js ''12.50'') (js ''Food'') (js ''2026-13-01'') = Some err_date"
    using validateForm_first_failure[of "js ''tea''" "js ''12.50''" "js ''Food''" "js ''2026-13-01''"]
      tea_description amount_1250_format amount_1250_not_zero food_category month_13_date
    by blast
  show "validateForm (js ''tea tea'') (js ''12.50'') (js ''Food'') (js ''2026-02-30'') = Some err_duplicate"
    using validateForm_first_failure[of "js ''tea tea''" "js ''12.50''" "js ''Food''" "js ''2026-02-30''"]
      amount_1250_format amount_1250_not_zero food_category feb_30_date by blast
  show "validateForm (js ''tea'') (js ''12.50'') (js ''Food-Delivery'') (js ''2026-02-30'') = None"
    using validateForm_first_failure[of "js ''tea''" "js ''12.50''" "js ''Food-Delivery''" "js ''2026-02-30''"]
      tea_description amount_1250_format amount_1250_not_zero food_delivery_category
      feb_30_date tea_no_duplicate by blast
qed

text \<open>
  C10. On every string that the amount pattern accepts, the catalogued pattern
  \<open>nonZeroAmount\<close> accepts the string exactly when \<open>parseFloat\<close> of it is not zero. Hence
  \<open>validateForm\<close>, which tests \<open>parseFloat(amount) === 0\<close>, returns on every form what the
  validator with the catalogued pattern in that place returns.
\<close>

theorem nonZeroAmount_refines_parseFloat:
  "(validate (js ''amount'') s \<longrightarrow>
      (validate (js ''nonZeroAmount'') s \<longleftrightarrow> \<not> is_zero (parseFloat s)))
   \<and> validateForm desc amt cat dat = validateForm_catalogued desc amt cat dat"
  using nonZeroAmount_iff[of amt] nonZeroAmount_iff[of s]
  by (auto simp: validateForm_def validateForm_catalogued_def)

theorem nonZeroAmount_refines_parseFloat_witness:
  "validate (js ''amount'') (js ''0.00'') \<and> is_zero (parseFloat (js ''0.00''))
   \<and> \<not> validate (js ''nonZeroAmount'') (js ''0.00'')
   \<and> validate (js ''amount'') (js ''12.50'') \<and> \<not> is_zero (parseFloat (js ''12.50''))
   \<and> validate (js ''nonZeroAmount'') (js ''12.50'')"
  using nonZeroAmount_refines_parseFloat[of "js ''0.00''"]
    nonZeroAmount_refines_parseFloat[of "js ''12.50''"]
    zero_amount_format zero_amount_is_zero amount_1250_format amount_1250_not_zero
  by blast

text \<open>
  C9. On the empty collection \<open>computeStats\<close> yields total 0, sum 0, the top category
  \<open>None\<close>, an empty category map and seven daily totals equal to 0, hence \<open>last7Count\<close> 0
  and \<open>last7Sum\<close> 0, whatever the day and the host.
\<close>

theorem computeStats_empty:
  "total (computeStats h today []) = 0
   \<and> sumAmount (computeStats h today []) = Fin 0
   \<and> topCategory (computeStats h today []) = js ''None''
   \<and> categoryMap (computeStats h today []) = []
   \<and> dailyTotals (computeStats h today []) = replicate 7 (Fin 0)
   \<and> last7Count (computeStats h today []) = 0
   \<and> last7Sum (computeStats h today []) = Fin 0"
  by (simp add: computeStats_def Let_def entries_def comp_def map_replicate_const
      foldl_add_zeros foldl_count_zeros del: upt_Suc)

end
